theory Spec2Isabelle
  imports Main "HOL-Library.Word"
begin

unbundle bit_operations_syntax

section \<open>Bytes and the cryptographic primitives of the platform\<close>

type_synonym byte = "8 word"
type_synonym bytes = "byte list"

text \<open>
  The worker calls the SHA-1 digest and the AES-CBC cipher of \<^verbatim>\<open>crypto.subtle\<close>. They
  belong to the browser, not to the repository, so the embedding takes them as parameters,
  gathered in one record.
  \<^item> \<open>sha1\<close> is \<^verbatim>\<open>crypto.subtle.digest('SHA-1', _)\<close>; a SHA-1 digest has 160 bits,
    and \<open>sha1 P data i\<close> is byte \<open>i\<close> of its 20 bytes;
  \<^item> \<open>importKey\<close> is \<^verbatim>\<open>crypto.subtle.importKey('raw', _, 'AES-CBC', false, ['encrypt'])\<close>,
    which rejects (\<open>Inl\<close>) the raw keys it does not accept;
  \<^item> \<open>aesCbcEncrypt key iv data\<close> is \<^verbatim>\<open>crypto.subtle.encrypt({name: 'AES-CBC', iv}, key, data)\<close>.
\<close>

record crypto =
  sha1 :: "bytes \<Rightarrow> nat \<Rightarrow> byte"
  importKey :: "bytes \<Rightarrow> string + bytes"
  aesCbcEncrypt :: "bytes \<Rightarrow> bytes \<Rightarrow> bytes \<Rightarrow> bytes"

text \<open>\<^verbatim>\<open>digestSha1\<close> wraps the digest buffer in a \<^verbatim>\<open>Uint8Array\<close> of 20 bytes.\<close>

definition digestSha1 :: "crypto \<Rightarrow> bytes \<Rightarrow> bytes" where
  "digestSha1 P data = map (sha1 P data) [0 ..< 20]"

text \<open>
  A JavaScript string is modelled by the bytes of its UTF-8 encoding, so that
  \<^verbatim>\<open>new TextEncoder().encode(s)\<close> reads the characters as bytes.
\<close>

definition textEncode :: "string \<Rightarrow> bytes" where
  "textEncode s = map (\<lambda>c. of_char c) s"

section \<open>Key derivation: \<^verbatim>\<open>getKeyPbkdf1\<close>\<close>

text \<open>
  Step 2 of the source, \<^verbatim>\<open>for (let i = 0; i < count - 1; i++) hash = await digestSha1(hash)\<close>.
  The loop counter and its bound are JavaScript numbers, here integers.
\<close>

function hashLoop :: "crypto \<Rightarrow> int \<Rightarrow> int \<Rightarrow> bytes \<Rightarrow> bytes" where
  "hashLoop P i count hash =
     (if i < count - 1 then hashLoop P (i + 1) count (digestSha1 P hash) else hash)"
  by pat_completeness auto
termination
  by (relation "measure (\<lambda>(P, i, count, hash). nat (count - 1 - i))") auto

text \<open>
  Step 4, the \<^verbatim>\<open>while (hashder.length < keyLen)\<close> loop. Storing \<^verbatim>\<open>marker\<close> into a
  \<^verbatim>\<open>Uint8Array\<close> keeps its low eight bits. Every round appends 20 bytes, which is why
  the loop ends.
\<close>

function extendLoop :: "crypto \<Rightarrow> bytes \<Rightarrow> int \<Rightarrow> nat \<Rightarrow> bytes \<Rightarrow> bytes" where
  "extendLoop P hash keyLen index hashder =
     (if int (length hashder) < keyLen
      then extendLoop P hash keyLen (index + 1)
             (hashder @ digestSha1 P ((of_nat (index + 48) :: byte) # hash))
      else hashder)"
  by pat_completeness auto
termination
  by (relation "measure (\<lambda>(P, hash, keyLen, index, hashder). nat (keyLen - int (length hashder)))")
     (auto simp: digestSha1_def)

text \<open>
  \<^verbatim>\<open>Uint8Array.prototype.slice(0, end)\<close>: a negative \<open>end\<close> counts from the end of
  the array, and the bounds are clamped to the array.
\<close>

definition sliceFrom0 :: "bytes \<Rightarrow> int \<Rightarrow> bytes" where
  "sliceFrom0 xs e =
     (if e < 0 then take (nat (max (int (length xs) + e) 0)) xs else take (nat e) xs)"

definition getKeyPbkdf1 :: "crypto \<Rightarrow> string \<Rightarrow> bytes \<Rightarrow> int \<Rightarrow> int \<Rightarrow> bytes" where
  "getKeyPbkdf1 P password salt keyLen countParam =
     (let count = countParam - 1;
          pwdBytes = textEncode password;
          hash = hashLoop P 0 count (digestSha1 P (pwdBytes @ salt));
          hashder = extendLoop P hash keyLen 1 (digestSha1 P hash)
      in sliceFrom0 hashder keyLen)"

text \<open>
  The algorithm in the words of the specification (section 4.1), where SHA1 is
  \<open>digestSha1\<close>: \<open>hash\<^sub>0\<close> is the digest of the password bytes followed by the salt;
  \<open>hashN\<close> applies the digest \<open>(iterationCount - 1) - 1\<close> more times; the seed is the
  digest of \<open>hashN\<close>; the extension appends the digests of \<open>byte (marker + 48) \<parallel> hashN\<close>
  for the markers \<open>1, 2, \<dots>\<close> and stops at the first accumulated length that reaches
  the key length, that is after \<open>specRounds\<close> digests of 20 bytes; the key is the first
  \<open>keyLength\<close> bytes.
\<close>

definition specRounds :: "nat \<Rightarrow> nat" where
  "specRounds keyLength = (keyLength + 19) div 20 - 1"

definition specDerive :: "crypto \<Rightarrow> string \<Rightarrow> bytes \<Rightarrow> nat \<Rightarrow> nat \<Rightarrow> bytes" where
  "specDerive P password salt keyLength iterationCount =
     (let hash0 = digestSha1 P (textEncode password @ salt);
          hashN = ((digestSha1 P) ^^ ((iterationCount - 1) - 1)) hash0;
          seed = digestSha1 P hashN;
          ext = concat (map (\<lambda>marker. digestSha1 P ((of_nat (marker + 48) :: byte) # hashN))
                          [1 ..< Suc (specRounds keyLength)])
      in take keyLength (seed @ ext))"

section \<open>Decryption: \<^verbatim>\<open>decryptAesCtrPbkdf1\<close>\<close>

text \<open>
  \<^verbatim>\<open>new DataView(buf).setBigUint64(0, counter, true)\<close> writes the low 64 bits of the
  counter into bytes 0 to 7, least significant byte first.
\<close>

fun leBytes :: "nat \<Rightarrow> nat \<Rightarrow> bytes" where
  "leBytes 0 c = []"
| "leBytes (Suc n) c = (of_nat c :: byte) # leBytes n (c div 256)"

definition makeCounterBlock :: "nat \<Rightarrow> bytes" where
  "makeCounterBlock counter = leBytes 8 counter @ replicate 8 0"

text \<open>
  The value of a byte string read as a little-endian number, used to state what the
  counter block holds.
\<close>

fun leValue :: "bytes \<Rightarrow> nat" where
  "leValue [] = 0"
| "leValue (b # bs) = unat b + 256 * leValue bs"

text \<open>Reading a typed array out of range gives \<^verbatim>\<open>undefined\<close>, which \<^verbatim>\<open>^\<close> treats as 0.\<close>

definition byteAt :: "bytes \<Rightarrow> nat \<Rightarrow> byte" where
  "byteAt xs i = (if i < length xs then xs ! i else 0)"

text \<open>
  The inner loop \<^verbatim>\<open>for (let i = 0; i < chunkLen; i++) output[offset + i] = ...\<close>. A
  write past the end of a typed array is ignored, as a list update out of range is.
\<close>

function xorLoop :: "bytes \<Rightarrow> bytes \<Rightarrow> nat \<Rightarrow> nat \<Rightarrow> nat \<Rightarrow> bytes \<Rightarrow> bytes" where
  "xorLoop data keystream off chunkLen i output =
     (if i < chunkLen
      then xorLoop data keystream off chunkLen (i + 1)
             (output[off + i := byteAt data (off + i) XOR byteAt keystream i])
      else output)"
  by pat_completeness auto
termination
  by (relation "measure (\<lambda>(data, keystream, off, chunkLen, i, output). chunkLen - i)") auto

definition BLOCK_SIZE :: nat where
  "BLOCK_SIZE = 16"

text \<open>
  One keystream block: the counter block is encrypted by AES-CBC under the all-zero IV and
  only the first 16 bytes of the result are kept (\<^verbatim>\<open>subarray(0, BLOCK_SIZE)\<close>).
\<close>

definition zeroIV :: bytes where
  "zeroIV = replicate 16 0"

definition keystreamBlock :: "crypto \<Rightarrow> bytes \<Rightarrow> nat \<Rightarrow> bytes" where
  "keystreamBlock P cryptoKey counter =
     take BLOCK_SIZE (aesCbcEncrypt P cryptoKey zeroIV (makeCounterBlock counter))"

text \<open>The outer loop over the block offsets, with the counter incremented once per block.\<close>

function blockLoop :: "crypto \<Rightarrow> bytes \<Rightarrow> bytes \<Rightarrow> nat \<Rightarrow> nat \<Rightarrow> bytes \<Rightarrow> bytes" where
  "blockLoop P cryptoKey data off counter output =
     (if off < length data
      then
        (let keystream = keystreamBlock P cryptoKey counter;
             chunkLen = min BLOCK_SIZE (length data - off)
         in blockLoop P cryptoKey data (off + BLOCK_SIZE) (counter + 1)
              (xorLoop data keystream off chunkLen 0 output))
      else output)"
  by pat_completeness auto
termination
  by (relation "measure (\<lambda>(P, cryptoKey, data, off, counter, output). length data - off)")
     (auto simp: BLOCK_SIZE_def)

text \<open>
  The promise rejects (\<open>Inl\<close>) when the key import fails; otherwise it resolves with the
  output buffer.
\<close>

definition decryptAesCtrPbkdf1 ::
  "crypto \<Rightarrow> bytes \<Rightarrow> string \<Rightarrow> bytes \<Rightarrow> int \<Rightarrow> int \<Rightarrow> string + bytes" where
  "decryptAesCtrPbkdf1 P data password salt keyLen countParam =
     (let keyBytes = getKeyPbkdf1 P password salt keyLen countParam
      in case importKey P keyBytes of
           Inl err \<Rightarrow> Inl err
         | Inr cryptoKey \<Rightarrow>
             Inr (blockLoop P cryptoKey data 0 1 (replicate (length data) 0)))"

section \<open>Assets, bundles and the external libraries\<close>

text \<open>
  \<^verbatim>\<open>AssetType\<close> is an enumeration of the bundle parser; the worker distinguishes four
  of its members. \<open>OtherType n\<close> stands for any other member, \<open>n\<close> being its name in
  the enumeration, if it has one.
\<close>

datatype asset_type = TextAsset | Sprite | SpriteAtlas | Texture2D | OtherType "string option"

text \<open>The reverse mapping \<^verbatim>\<open>AssetType[type]\<close> of the enumeration.\<close>

fun assetTypeName :: "asset_type \<Rightarrow> string option" where
  "assetTypeName TextAsset = Some ''TextAsset''"
| "assetTypeName Sprite = Some ''Sprite''"
| "assetTypeName SpriteAtlas = Some ''SpriteAtlas''"
| "assetTypeName Texture2D = Some ''Texture2D''"
| "assetTypeName (OtherType n) = n"

type_synonym img_bitmap = bytes

text \<open>
  An object of a parsed bundle. \<open>obj_bitmap\<close> is what \<^verbatim>\<open>getImageBitmap()\<close> returns
  (\<open>None\<close> for \<^verbatim>\<open>undefined\<close>), \<open>obj_dump\<close> what \<^verbatim>\<open>dump()\<close> returns, \<open>obj_data\<close>
  the payload of a text asset.
\<close>

record asset_object =
  obj_name :: string
  obj_type :: asset_type
  obj_pathId :: int
  obj_size :: nat
  obj_dump :: string
  obj_data :: bytes
  obj_bitmap :: "img_bitmap option"

record asset_bundle =
  objects :: "asset_object list"
  containerMap :: "(int \<rightharpoonup> string) option"
  objectMap :: "int \<rightharpoonup> asset_object"

record load_options =
  unityCNKey :: string
  env :: string
  envIndex :: int

record raw_file =
  file_name :: string
  file_bytes :: bytes

text \<open>
  The libraries the worker calls: the MD5 digest of \<^verbatim>\<open>js-md5\<close>, the bundle parser
  \<^verbatim>\<open>loadAssetBundle\<close> (which throws on input it cannot read, \<open>Inl\<close>), the UTF-8
  \<^verbatim>\<open>TextDecoder\<close>, \<^verbatim>\<open>String.prototype.toLowerCase\<close>, the PNG encoder that the
  workers of the conversion pool run (\<open>None\<close> when it produces no buffer) and the
  cryptographic primitives.
\<close>

record externals =
  subtle :: crypto
  calcMd5 :: "bytes \<Rightarrow> string"
  loadAssetBundle :: "bytes \<Rightarrow> load_options \<Rightarrow> string + asset_bundle"
  textDecode :: "bytes \<Rightarrow> string"
  toLowerCase :: "string \<Rightarrow> string"
  encodePng :: "img_bitmap \<Rightarrow> bytes option"

section \<open>The state of the asset manager\<close>

record image_result =
  blob :: bytes
  url :: string

text \<open>
  Modelled from the spec: a \<^verbatim>\<open>TrackedPromise\<close>, the result of \<^verbatim>\<open>toTrackedPromise\<close> in
  the module \<^verbatim>\<open>utils/trackedPromise\<close>, wraps a deferred computation and adds a
  non-blocking query whether it has already settled. An image promise is in flight
  (\<open>Pending\<close>, with the buffer the conversion pool is going to deliver) or fulfilled
  with its value (\<open>None\<close> for \<^verbatim>\<open>undefined\<close>).
\<close>

datatype image_promise = Pending "bytes option" | Fulfilled "image_result option"

text \<open>
  The two maps of the class, the promises it has created (a promise is named by its
  index), the counter behind \<^verbatim>\<open>URL.createObjectURL\<close>, and the calls of \<^verbatim>\<open>loadFile\<close>
  that are waiting for the parser (a call is named by its index and holds the file and
  what the parser is going to deliver; \<open>None\<close> once the call has continued). Three logs
  record the calls of the external routines: \<open>parserCalls\<close> the buffers given to
  \<^verbatim>\<open>loadAssetBundle\<close>, \<open>decodeCalls\<close> the keys for which \<^verbatim>\<open>loadImage\<close> has called
  \<^verbatim>\<open>getImageBitmap\<close>, and \<open>exportDecodes\<close> the keys for which \<^verbatim>\<open>exportAssets\<close> has called
  \<^verbatim>\<open>getImageBitmap\<close> itself.
\<close>

record manager =
  bundleMap :: "string \<rightharpoonup> asset_bundle"
  imageMap :: "string \<rightharpoonup> nat"
  promises :: "image_promise list"
  urlCounter :: nat
  pendingLoads :: "(raw_file \<times> (string + asset_bundle)) option list"
  parserCalls :: "bytes list"
  decodeCalls :: "string list"
  exportDecodes :: "string list"

definition newManager :: manager where
  "newManager = \<lparr> bundleMap = Map.empty, imageMap = Map.empty, promises = [],
                   urlCounter = 0, pendingLoads = [], parserCalls = [], decodeCalls = [],
                   exportDecodes = [] \<rparr>"

definition showAssetType :: "asset_type list" where
  "showAssetType = [TextAsset, Sprite, SpriteAtlas, Texture2D]"

definition canExportAssetType :: "asset_type list" where
  "canExportAssetType = [TextAsset, Sprite, Texture2D]"

definition isTextAssetObj :: "asset_object option \<Rightarrow> bool" where
  "isTextAssetObj obj = (case obj of None \<Rightarrow> False | Some ob \<Rightarrow> obj_type ob = TextAsset)"

definition isImageAssetObj :: "asset_object option \<Rightarrow> bool" where
  "isImageAssetObj obj =
     (case obj of None \<Rightarrow> False | Some ob \<Rightarrow> obj_type ob = Sprite \<or> obj_type ob = Texture2D)"

text \<open>\<^verbatim>\<open>name.replace(/[/\\:*?"<>|]/g, '')\<close>\<close>

definition illegalChars :: "char list" where
  "illegalChars = [CHR ''/'', CHR 0x5C, CHR '':'', CHR ''*'', CHR ''?'', CHR 0x22,
                   CHR ''<'', CHR ''>'', CHR ''|'']"

definition getLegalFileName :: "string \<Rightarrow> string" where
  "getLegalFileName name = filter (\<lambda>c. c \<notin> set illegalChars) name"

text \<open>The decimal digits of a \<^verbatim>\<open>bigint\<close>, as a template literal prints it.\<close>

function natToString :: "nat \<Rightarrow> string" where
  "natToString n =
     (if n < 10 then [char_of (48 + n)]
      else natToString (n div 10) @ [char_of (48 + n mod 10)])"
  by pat_completeness auto
termination
  by (relation "measure id") auto

definition bigintToString :: "int \<Rightarrow> string" where
  "bigintToString i = (if i < 0 then CHR ''-'' # natToString (nat (- i)) else natToString (nat i))"

definition getAssetKey :: "string \<Rightarrow> int \<Rightarrow> string" where
  "getAssetKey fileId pathId = fileId @ ''_'' @ bigintToString pathId"

definition getAssetObj :: "manager \<Rightarrow> string \<Rightarrow> int \<Rightarrow> asset_object option" where
  "getAssetObj st fileId pathId =
     (case bundleMap st fileId of None \<Rightarrow> None | Some b \<Rightarrow> objectMap b pathId)"

section \<open>Image promises\<close>

text \<open>
  Modelled from the spec: \<^verbatim>\<open>isFulfilled()\<close>, the query of a \<^verbatim>\<open>TrackedPromise\<close> that tells
  without blocking whether the promise has settled.
\<close>

definition isFulfilled :: "manager \<Rightarrow> nat \<Rightarrow> bool" where
  "isFulfilled st h =
     (h < length (promises st) \<and> (case promises st ! h of Fulfilled v \<Rightarrow> True | Pending b \<Rightarrow> False))"

text \<open>
  The conversion of promise \<open>h\<close> completes: the rest of the asynchronous function in
  \<^verbatim>\<open>loadImage\<close> runs. Without a buffer it returns \<^verbatim>\<open>undefined\<close>; with one it wraps
  the buffer in a blob and mints a URL for it.
\<close>

definition settle :: "manager \<Rightarrow> nat \<Rightarrow> manager" where
  "settle st h =
     (if h < length (promises st)
      then (case promises st ! h of
              Fulfilled v \<Rightarrow> st
            | Pending None \<Rightarrow> st\<lparr>promises := (promises st)[h := Fulfilled None]\<rparr>
            | Pending (Some buffer) \<Rightarrow>
                st\<lparr>promises := (promises st)[h := Fulfilled
                       (Some \<lparr>blob = buffer, url = ''blob:'' @ natToString (urlCounter st)\<rparr>)],
                   urlCounter := urlCounter st + 1\<rparr>)
      else st)"

text \<open>\<^verbatim>\<open>await\<close> on promise \<open>h\<close>: the caller continues once the promise is fulfilled.\<close>

definition await :: "manager \<Rightarrow> nat \<Rightarrow> image_result option \<times> manager" where
  "await st h =
     (let st' = settle st h
      in if h < length (promises st')
         then (case promises st' ! h of Fulfilled v \<Rightarrow> (v, st') | Pending b \<Rightarrow> (None, st'))
         else (None, st'))"

section \<open>\<^verbatim>\<open>loadImage\<close>, \<^verbatim>\<open>getImageUrl\<close> and \<^verbatim>\<open>exportAsset\<close>\<close>

text \<open>
  Modelled from the spec: \<^verbatim>\<open>ImageConverterPool.addTasks\<close>, of the module
  \<^verbatim>\<open>utils/imageConverterPool\<close>, for a batch of one task. The pool turns the decoded
  bitmap into an encoded byte buffer and calls the callback of the task exactly once,
  with an empty result when the encoding fails, so that a batch never hangs. The value
  is the buffer handed to the callback.
\<close>

definition addTasks :: "externals \<Rightarrow> img_bitmap \<Rightarrow> bytes option" where
  "addTasks E bitmap = encodePng E bitmap"

text \<open>
  \<^verbatim>\<open>getAssetObjPNG\<close> up to its \<^verbatim>\<open>await\<close>: it decodes the bitmap and hands it to the
  conversion pool. The result is the buffer that the callback is going to store.
\<close>

definition getAssetObjPNG :: "externals \<Rightarrow> asset_object \<Rightarrow> bytes option" where
  "getAssetObjPNG E obj =
     (case obj_bitmap obj of None \<Rightarrow> None | Some bitmap \<Rightarrow> addTasks E bitmap)"

text \<open>
  \<^verbatim>\<open>loadImage\<close> runs without interruption up to its \<^verbatim>\<open>return\<close>: the asynchronous
  function it starts runs synchronously through the call of \<^verbatim>\<open>getImageBitmap\<close> and the
  submission to the pool, and only then does \<^verbatim>\<open>loadImage\<close> store the promise in
  \<^verbatim>\<open>imageMap\<close>. The call of \<^verbatim>\<open>getImageBitmap\<close> is recorded in \<open>decodeCalls\<close>. The
  value returned is the promise the caller awaits.
\<close>

definition loadImage :: "externals \<Rightarrow> manager \<Rightarrow> string \<Rightarrow> int \<Rightarrow> nat option \<times> manager" where
  "loadImage E st fileId pathId =
     (let key = getAssetKey fileId pathId
      in case imageMap st key of
           Some h \<Rightarrow> (Some h, st)
         | None \<Rightarrow>
             (case getAssetObj st fileId pathId of
                None \<Rightarrow> (None, st)
              | Some obj \<Rightarrow>
                  if obj_type obj \<noteq> Sprite \<and> obj_type obj \<noteq> Texture2D then (None, st)
                  else
                    (let buffer = getAssetObjPNG E obj;
                         result = length (promises st)
                     in (Some result,
                         st\<lparr>promises := promises st @ [Pending buffer],
                            decodeCalls := decodeCalls st @ [key],
                            imageMap := (imageMap st)(key \<mapsto> result)\<rparr>))))"

definition getImageUrl :: "externals \<Rightarrow> manager \<Rightarrow> string \<Rightarrow> int \<Rightarrow> string option \<times> manager" where
  "getImageUrl E st fileId pathId =
     (case loadImage E st fileId pathId of
        (None, st1) \<Rightarrow> (None, st1)
      | (Some h, st1) \<Rightarrow>
          (case await st1 h of
             (None, st2) \<Rightarrow> (None, st2)
           | (Some r, st2) \<Rightarrow> (Some (url r), st2)))"

datatype info_data = Undefined | Null | Str string

text \<open>The store's \<^verbatim>\<open>loadImage\<close> writes \<^verbatim>\<open>img ?? null\<close> into the \<^verbatim>\<open>data\<close> field.\<close>

definition storeImageData :: "string option \<Rightarrow> info_data" where
  "storeImageData img = (case img of None \<Rightarrow> Null | Some u \<Rightarrow> Str u)"

record export_file =
  exp_name :: string
  exp_type :: string
  exp_data :: bytes

definition exportImage ::
  "externals \<Rightarrow> manager \<Rightarrow> string \<Rightarrow> int \<Rightarrow> string \<Rightarrow> export_file option \<times> manager" where
  "exportImage E st fileId pathId fileName =
     (case loadImage E st fileId pathId of
        (None, st1) \<Rightarrow> (None, st1)
      | (Some h, st1) \<Rightarrow>
          (case await st1 h of
             (None, st2) \<Rightarrow> (None, st2)
           | (Some r, st2) \<Rightarrow>
               (Some \<lparr>exp_name = fileName @ ''.png'', exp_type = ''image/png'', exp_data = blob r\<rparr>,
                st2)))"

definition exportAsset ::
  "externals \<Rightarrow> manager \<Rightarrow> string \<Rightarrow> int \<Rightarrow> export_file option \<times> manager" where
  "exportAsset E st fileId pathId =
     (case getAssetObj st fileId pathId of
        None \<Rightarrow> (None, st)
      | Some obj \<Rightarrow>
          if obj_type obj \<notin> set canExportAssetType then (None, st)
          else
            (let fileName = getLegalFileName (obj_name obj)
             in case obj_type obj of
                  TextAsset \<Rightarrow>
                    (Some \<lparr>exp_name = fileName @ ''.txt'', exp_type = ''text/plain'',
                           exp_data = obj_data obj\<rparr>, st)
                | Sprite \<Rightarrow> exportImage E st fileId pathId fileName
                | Texture2D \<Rightarrow> exportImage E st fileId pathId fileName
                | SpriteAtlas \<Rightarrow> (None, st)
                | OtherType n \<Rightarrow> (None, st)))"

text \<open>
  The encoded bytes that the image cache holds or is going to hold for a key: those of the
  cached promise, delivered or still to come, or else those of the decode that
  \<^verbatim>\<open>loadImage\<close> would start for the object.
\<close>

definition promisedBytes :: "image_promise \<Rightarrow> bytes option" where
  "promisedBytes p = (case p of Pending b \<Rightarrow> b | Fulfilled v \<Rightarrow> map_option blob v)"

definition imageBytes :: "externals \<Rightarrow> manager \<Rightarrow> string \<Rightarrow> asset_object \<Rightarrow> bytes option" where
  "imageBytes E st key obj =
     (case imageMap st key of
        None \<Rightarrow> getAssetObjPNG E obj
      | Some h \<Rightarrow> if h < length (promises st) then promisedBytes (promises st ! h) else None)"

section \<open>\<^verbatim>\<open>loadFile\<close> and \<^verbatim>\<open>loadFiles\<close>\<close>

record asset_info =
  info_key :: string
  info_fileId :: string
  info_fileName :: string
  info_name :: string
  info_container :: string
  info_type :: string
  info_pathId :: int
  info_size :: nat
  info_dump :: string
  info_data :: info_data
  info_search :: string

text \<open>
  \<^verbatim>\<open>getAssetData\<close>. The decoder was built without the \<^verbatim>\<open>fatal\<close> option and does not
  throw, so the \<^verbatim>\<open>catch\<close> branch has no counterpart here.
\<close>

definition getAssetData :: "externals \<Rightarrow> manager \<Rightarrow> asset_object \<Rightarrow> string \<Rightarrow> info_data" where
  "getAssetData E st obj key =
     (let cached =
            (case imageMap st key of
               None \<Rightarrow> Undefined
             | Some imgPromise \<Rightarrow>
                 if isFulfilled st imgPromise
                 then (case fst (await st imgPromise) of None \<Rightarrow> Null | Some r \<Rightarrow> Str (url r))
                 else Undefined)
      in case obj_type obj of
           TextAsset \<Rightarrow> Str (textDecode E (obj_data obj))
         | Sprite \<Rightarrow> cached
         | Texture2D \<Rightarrow> cached
         | SpriteAtlas \<Rightarrow> Undefined
         | OtherType n \<Rightarrow> Undefined)"

definition toAssetInfo ::
  "externals \<Rightarrow> manager \<Rightarrow> asset_bundle \<Rightarrow> string \<Rightarrow> string \<Rightarrow> asset_object \<Rightarrow> asset_info" where
  "toAssetInfo E st bundle fileId fileName obj =
     (let key = getAssetKey fileId (obj_pathId obj);
          container =
            (case containerMap bundle of
               None \<Rightarrow> ''''
             | Some m \<Rightarrow> (case m (obj_pathId obj) of None \<Rightarrow> '''' | Some c \<Rightarrow> c))
      in \<lparr> info_key = key, info_fileId = fileId, info_fileName = fileName,
           info_name = obj_name obj, info_container = container,
           info_type = (case assetTypeName (obj_type obj) of None \<Rightarrow> '''' | Some n \<Rightarrow> n),
           info_pathId = obj_pathId obj, info_size = obj_size obj, info_dump = obj_dump obj,
           info_data = getAssetData E st obj key,
           info_search = toLowerCase E (obj_name obj) \<rparr>)"

text \<open>
  \<^verbatim>\<open>loadFile\<close> up to the \<^verbatim>\<open>await\<close> on the parser: the MD5 of the buffer and the lookup in
  \<^verbatim>\<open>bundleMap\<close>. A bundle already stored under the MD5 is taken from the map and the
  parser is not called; otherwise the parser is called, and the call of \<^verbatim>\<open>loadFile\<close>
  waits for what it delivers: a bundle, or the error it throws (\<open>Inl\<close>).
\<close>

definition loadFileBegin ::
  "externals \<Rightarrow> manager \<Rightarrow> raw_file \<Rightarrow> load_options \<Rightarrow> (string + asset_bundle) \<times> manager" where
  "loadFileBegin E st file options =
     (let buffer = file_bytes file;
          md5 = calcMd5 E buffer
      in case bundleMap st md5 of
           Some b \<Rightarrow> (Inr b, st)
         | None \<Rightarrow> (loadAssetBundle E buffer options,
                    st\<lparr>parserCalls := parserCalls st @ [buffer]\<rparr>))"

text \<open>
  \<^verbatim>\<open>loadFile\<close> from the \<^verbatim>\<open>await\<close> on: the promise rejects when the parser has thrown;
  otherwise the bundle is stored unless the map has an entry for the MD5 by now, and the
  displayed objects of the bundle are turned into \<^verbatim>\<open>AssetInfo\<close> entries.
\<close>

definition loadFileEnd ::
  "externals \<Rightarrow> manager \<Rightarrow> raw_file \<Rightarrow> (string + asset_bundle)
     \<Rightarrow> (string + asset_info list) \<times> manager" where
  "loadFileEnd E st1 file parsed =
     (let md5 = calcMd5 E (file_bytes file)
      in case parsed of
           Inl err \<Rightarrow> (Inl err, st1)
         | Inr bundle \<Rightarrow>
             (let st2 = (case bundleMap st1 md5 of
                           None \<Rightarrow> st1\<lparr>bundleMap := (bundleMap st1)(md5 \<mapsto> bundle)\<rparr>
                         | Some b \<Rightarrow> st1)
              in (Inr (map (toAssetInfo E st2 bundle md5 (file_name file))
                         (filter (\<lambda>obj. obj_type obj \<in> set showAssetType) (objects bundle))),
                  st2)))"

text \<open>
  A call of \<^verbatim>\<open>loadFile\<close> that nothing else interleaves with: the second part runs in the
  state the first part left.
\<close>

definition loadFile ::
  "externals \<Rightarrow> manager \<Rightarrow> raw_file \<Rightarrow> load_options \<Rightarrow> (string + asset_info list) \<times> manager" where
  "loadFile E st file options =
     (let (parsed, st1) = loadFileBegin E st file options
      in loadFileEnd E st1 file parsed)"

text \<open>
  A call of \<^verbatim>\<open>loadFile\<close> as other calls see it. When the bundle is in the map the call
  does not wait and runs to its end at once. Otherwise it calls the parser and joins the
  waiting calls; \<open>endLoad\<close> is the moment the parser delivers to the waiting call \<open>i\<close>,
  which then runs to its end in the state it finds.
\<close>

definition beginLoad :: "externals \<Rightarrow> manager \<Rightarrow> raw_file \<Rightarrow> load_options \<Rightarrow> manager" where
  "beginLoad E st file options =
     (case loadFileBegin E st file options of
        (parsed, st1) \<Rightarrow>
          (case bundleMap st (calcMd5 E (file_bytes file)) of
             Some b \<Rightarrow> snd (loadFileEnd E st1 file parsed)
           | None \<Rightarrow> st1\<lparr>pendingLoads := pendingLoads st1 @ [Some (file, parsed)]\<rparr>))"

definition endLoad :: "externals \<Rightarrow> manager \<Rightarrow> nat \<Rightarrow> manager" where
  "endLoad E st i =
     (if i < length (pendingLoads st)
      then (case pendingLoads st ! i of
              None \<Rightarrow> st
            | Some (file, parsed) \<Rightarrow>
                snd (loadFileEnd E (st\<lparr>pendingLoads := (pendingLoads st)[i := None]\<rparr>) file parsed))
      else st)"

definition endsWith :: "string \<Rightarrow> string \<Rightarrow> bool" where
  "endsWith s suffix = (length suffix \<le> length s \<and> drop (length s - length suffix) s = suffix)"

text \<open>\<^verbatim>\<open>name.replace(/\.ab$/, '')\<close>\<close>

definition removeAbSuffix :: "string \<Rightarrow> string" where
  "removeAbSuffix name = (if endsWith name ''.ab'' then take (length name - 3) name else name)"

text \<open>
  The body of the \<^verbatim>\<open>try\<close> block of \<^verbatim>\<open>loadFiles\<close> after the progress report: the
  decryption of an \<^verbatim>\<open>.ab\<close> file when \<^verbatim>\<open>envIndex\<close> is 2, then \<^verbatim>\<open>loadFile\<close>. \<open>Inl\<close> is
  the error that the \<^verbatim>\<open>catch\<close> clause receives.
\<close>

definition tryLoadFile ::
  "externals \<Rightarrow> manager \<Rightarrow> raw_file \<Rightarrow> load_options \<Rightarrow> (string + asset_info list) \<times> manager" where
  "tryLoadFile E st file options =
     (if envIndex options = 2 \<and> endsWith (file_name file) ''.ab''
      then
        (let raw = file_bytes file;
             salt = textEncode (removeAbSuffix (file_name file))
         in case decryptAesCtrPbkdf1 (subtle E) raw ''System.Byte[]'' salt 32 100 of
              Inl err \<Rightarrow> (Inl err, st)
            | Inr decrypted \<Rightarrow> loadFile E st (file\<lparr>file_bytes := decrypted\<rparr>) options)
      else loadFile E st file options)"

text \<open>
  What \<^verbatim>\<open>loadFiles\<close> builds: the three fields of the object it returns, and the calls
  it made to \<^verbatim>\<open>onProgress\<close>, each with the file name, the index and the number of files
  (from which the percentage is computed) and \<^verbatim>\<open>totalAssetNum\<close>.
\<close>

record load_result =
  errors :: "(string \<times> string) list"
  infos :: "asset_info list"
  successNum :: nat
  progressCalls :: "(string \<times> nat \<times> nat \<times> nat) list"

function loadFilesLoop ::
  "externals \<Rightarrow> load_options \<Rightarrow> raw_file list \<Rightarrow> nat \<Rightarrow> load_result \<Rightarrow> manager
     \<Rightarrow> load_result \<times> manager" where
  "loadFilesLoop E options files i acc st =
     (if i < length files
      then
        (let file = files ! i;
             acc1 = acc\<lparr>progressCalls := progressCalls acc @
                          [(file_name file, i, length files, length (infos acc))]\<rparr>
         in case tryLoadFile E st file options of
              (Inr result, st') \<Rightarrow>
                loadFilesLoop E options files (i + 1)
                  (if length result \<noteq> 0
                   then acc1\<lparr>successNum := successNum acc1 + 1, infos := infos acc1 @ result\<rparr>
                   else acc1) st'
            | (Inl err, st') \<Rightarrow>
                loadFilesLoop E options files (i + 1)
                  (acc1\<lparr>errors := errors acc1 @ [(file_name file, err)]\<rparr>) st')
      else (acc, st))"
  by pat_completeness auto
termination
  by (relation "measure (\<lambda>(E, options, files, i, acc, st). length files - i)") auto

definition loadFiles ::
  "externals \<Rightarrow> manager \<Rightarrow> raw_file list \<Rightarrow> load_options \<Rightarrow> load_result \<times> manager" where
  "loadFiles E st files options =
     loadFilesLoop E options files 0
       \<lparr>errors = [], infos = [], successNum = 0, progressCalls = []\<rparr> st"

text \<open>
  The outcome of every file of a batch, each file processed in the state its predecessor
  left: the reference against which the loop of \<^verbatim>\<open>loadFiles\<close> is compared.
\<close>

fun fileOutcomes ::
  "externals \<Rightarrow> load_options \<Rightarrow> manager \<Rightarrow> raw_file list \<Rightarrow> (string \<times> (string + asset_info list)) list" where
  "fileOutcomes E options st [] = []"
| "fileOutcomes E options st (f # fs) =
     (file_name f, fst (tryLoadFile E st f options))
       # fileOutcomes E options (snd (tryLoadFile E st f options)) fs"

text \<open>What one outcome contributes to the three fields of the result.\<close>

definition errorOf :: "string \<times> (string + asset_info list) \<Rightarrow> (string \<times> string) option" where
  "errorOf out = (case snd out of Inl err \<Rightarrow> Some (fst out, err) | Inr result \<Rightarrow> None)"

definition infosOf :: "string \<times> (string + asset_info list) \<Rightarrow> asset_info list" where
  "infosOf out = (case snd out of Inl err \<Rightarrow> [] | Inr result \<Rightarrow> result)"

definition isSuccess :: "string \<times> (string + asset_info list) \<Rightarrow> bool" where
  "isSuccess out = (case snd out of Inl err \<Rightarrow> False | Inr result \<Rightarrow> result \<noteq> [])"

text \<open>
  What a loop started at index \<open>i\<close> adds to its accumulator, in terms of the outcomes
  \<open>outs\<close> of the remaining files.
\<close>

definition loopAdds ::
  "nat \<Rightarrow> nat \<Rightarrow> load_result \<Rightarrow> (string \<times> (string + asset_info list)) list \<Rightarrow> load_result \<Rightarrow> bool" where
  "loopAdds i n acc outs r \<longleftrightarrow>
     errors r = errors acc @ List.map_filter errorOf outs
   \<and> infos r = infos acc @ concat (map infosOf outs)
   \<and> successNum r = successNum acc + length (filter isSuccess outs)
   \<and> progressCalls r = progressCalls acc @
       map (\<lambda>j. (fst (outs ! j), i + j, n,
                  length (infos acc) + length (concat (map infosOf (take j outs)))))
           [0 ..< length outs]"

section \<open>Archive paths in \<^verbatim>\<open>exportAssets\<close>\<close>

datatype export_group_method = NONE | TYPE_NAME | SOURCE_FILE_NAME | CONTAINER_PATH

record export_entry =
  entry_key :: string
  entry_fileName :: string
  entry_container :: string
  entry_obj :: "asset_object option"

text \<open>
  \<^verbatim>\<open>objMap\<close>: one entry per key; of two parameters with the same key the later one
  stays.
\<close>

definition makeObjMap ::
  "manager \<Rightarrow> (string \<times> int \<times> string \<times> string) list \<Rightarrow> (string \<rightharpoonup> export_entry)" where
  "makeObjMap st params =
     foldl (\<lambda>m (fileId, pathId, fileName, container).
              (let key = getAssetKey fileId pathId
               in m(key \<mapsto> \<lparr>entry_key = key, entry_fileName = fileName,
                             entry_container = container,
                             entry_obj = getAssetObj st fileId pathId\<rparr>)))
           Map.empty params"

text \<open>
  \<^verbatim>\<open>getObjPath\<close>. The \<^verbatim>\<open>CONTAINER_PATH\<close> case falls through to the \<^verbatim>\<open>NONE\<close> case when the
  container is the empty string. A type without a name in the enumeration prints as
  \<^verbatim>\<open>undefined\<close> in the template literal.
\<close>

definition getObjPath ::
  "(string \<rightharpoonup> export_entry) \<Rightarrow> export_group_method \<Rightarrow> string \<Rightarrow> string \<Rightarrow> string" where
  "getObjPath objMap groupMethod key ext =
     (case objMap key of
        None \<Rightarrow> ''''
      | Some data \<Rightarrow>
          (case entry_obj data of
             None \<Rightarrow> ''''
           | Some obj \<Rightarrow>
               (let fileName = entry_fileName data;
                    container = entry_container data;
                    legalName = getLegalFileName (obj_name obj)
                in case groupMethod of
                     CONTAINER_PATH \<Rightarrow>
                       if container \<noteq> '''' then container else legalName @ ''.'' @ ext
                   | NONE \<Rightarrow> legalName @ ''.'' @ ext
                   | TYPE_NAME \<Rightarrow>
                       (case assetTypeName (obj_type obj) of None \<Rightarrow> ''undefined'' | Some n \<Rightarrow> n)
                         @ ''/'' @ legalName @ ''.'' @ ext
                   | SOURCE_FILE_NAME \<Rightarrow> fileName @ ''/'' @ legalName @ ''.'' @ ext)))"

section \<open>The images of \<^verbatim>\<open>exportAssets\<close>\<close>

text \<open>
  \<^verbatim>\<open>[...objMap.values()]\<close>: a \<^verbatim>\<open>Map\<close> built from a list of pairs keeps every key at the
  place of its first occurrence, with the value of its last.
\<close>

fun upsert :: "export_entry \<Rightarrow> export_entry list \<Rightarrow> export_entry list" where
  "upsert v [] = [v]"
| "upsert v (e # es) = (if entry_key e = entry_key v then v # es else e # upsert v es)"

definition objValues ::
  "manager \<Rightarrow> (string \<times> int \<times> string \<times> string) list \<Rightarrow> export_entry list" where
  "objValues st params =
     foldl (\<lambda>l (fileId, pathId, fileName, container).
              upsert \<lparr>entry_key = getAssetKey fileId pathId, entry_fileName = fileName,
                      entry_container = container,
                      entry_obj = getAssetObj st fileId pathId\<rparr> l)
           [] params"

text \<open>
  What the loop over the images takes from the image cache: the blob of an entry that is
  fulfilled with a result. A pending entry, an entry fulfilled with \<^verbatim>\<open>undefined\<close> and a
  missing entry give nothing. Awaiting a fulfilled promise leaves the state as it is.
\<close>

definition cachedBlob :: "manager \<Rightarrow> string \<Rightarrow> bytes option" where
  "cachedBlob st key =
     (case imageMap st key of
        None \<Rightarrow> None
      | Some promise \<Rightarrow>
          if isFulfilled st promise
          then (case fst (await st promise) of None \<Rightarrow> None | Some r \<Rightarrow> Some (blob r))
          else None)"

record export_prep =
  imgData :: "(string \<times> bytes) list"
  imgBitmaps :: "(string \<times> img_bitmap) list"

text \<open>
  The loop over \<^verbatim>\<open>imgObjs\<close>. An image with a cached blob goes to \<^verbatim>\<open>imgData\<close>. For every
  other image the loop calls \<^verbatim>\<open>getImageBitmap\<close> itself, which \<open>exportDecodes\<close> records, and
  puts the bitmap, if there is one, into \<^verbatim>\<open>imgBitmaps\<close>. It does not write \<^verbatim>\<open>imageMap\<close>.
\<close>

fun prepareLoop :: "manager \<Rightarrow> export_entry list \<Rightarrow> export_prep \<Rightarrow> export_prep \<times> manager" where
  "prepareLoop st [] acc = (acc, st)"
| "prepareLoop st (e # es) acc =
     (case cachedBlob st (entry_key e) of
        Some b \<Rightarrow> prepareLoop st es (acc\<lparr>imgData := imgData acc @ [(entry_key e, b)]\<rparr>)
      | None \<Rightarrow>
          (case entry_obj e of
             None \<Rightarrow> prepareLoop st es acc
           | Some obj \<Rightarrow>
               (let st1 = st\<lparr>exportDecodes := exportDecodes st @ [entry_key e]\<rparr>
                in case obj_bitmap obj of
                     None \<Rightarrow> prepareLoop st1 es acc
                   | Some bitmap \<Rightarrow>
                       prepareLoop st1 es
                         (acc\<lparr>imgBitmaps := imgBitmaps acc @ [(entry_key e, bitmap)]\<rparr>))))"

text \<open>
  \<^verbatim>\<open>exportAssets\<close> up to the submission of \<^verbatim>\<open>imgBitmaps\<close> to the conversion pool: the
  entries of \<^verbatim>\<open>objMap\<close>, those of them that are images, and the loop over these.
\<close>

definition exportPrepare ::
  "manager \<Rightarrow> (string \<times> int \<times> string \<times> string) list \<Rightarrow> export_prep \<times> manager" where
  "exportPrepare st params =
     prepareLoop st (filter (\<lambda>e. isImageAssetObj (entry_obj e)) (objValues st params))
       \<lparr>imgData = [], imgBitmaps = []\<rparr>"

section \<open>Interleaved calls\<close>

text \<open>
  The worker runs one piece of code at a time, and control changes hands only at an
  \<^verbatim>\<open>await\<close> on something that is not settled yet. What can happen between two such
  points: a caller invokes \<^verbatim>\<open>loadImage\<close>, the conversion behind a promise completes, a
  call of \<^verbatim>\<open>loadFile\<close> starts, the parser delivers to a waiting call of \<^verbatim>\<open>loadFile\<close>, or
  \<^verbatim>\<open>exportAssets\<close> runs its loop over the images. No event clears the maps.
\<close>

datatype event =
    CallLoadImage string int
  | ConversionDone nat
  | BeginLoadFile raw_file load_options
  | EndLoadFile nat
  | CallExportAssets "(string \<times> int \<times> string \<times> string) list"

fun step :: "externals \<Rightarrow> manager \<Rightarrow> event \<Rightarrow> manager" where
  "step E st (CallLoadImage fileId pathId) = snd (loadImage E st fileId pathId)"
| "step E st (ConversionDone h) = settle st h"
| "step E st (BeginLoadFile f options) = beginLoad E st f options"
| "step E st (EndLoadFile i) = endLoad E st i"
| "step E st (CallExportAssets params) = snd (exportPrepare st params)"

fun run :: "externals \<Rightarrow> manager \<Rightarrow> event list \<Rightarrow> manager" where
  "run E st [] = st"
| "run E st (e # es) = run E (step E st e) es"

text \<open>The promises that the calls of \<^verbatim>\<open>loadImage\<close> in a run return, with their keys.\<close>

fun returned :: "externals \<Rightarrow> manager \<Rightarrow> event list \<Rightarrow> (string \<times> nat) list" where
  "returned E st [] = []"
| "returned E st (CallLoadImage fileId pathId # es) =
     (case fst (loadImage E st fileId pathId) of
        None \<Rightarrow> []
      | Some h \<Rightarrow> [(getAssetKey fileId pathId, h)])
     @ returned E (step E st (CallLoadImage fileId pathId)) es"
| "returned E st (e # es) = returned E (step E st e) es"

section \<open>Test doubles\<close>

text \<open>
  Test doubles for the platform and the libraries, on which the definitions can be
  evaluated: a digest that is a checksum of its input, a key import that accepts raw
  keys of 16, 24 and 32 bytes only, and a cipher that returns one block per input block
  followed by a padding block.
\<close>

definition stubCrypto :: crypto where
  "stubCrypto =
     \<lparr> sha1 = (\<lambda>x i. foldr (\<lambda>b a. b + 3 * a) x (of_nat (length x + i))),
       importKey = (\<lambda>k. if length k = 16 \<or> length k = 24 \<or> length k = 32 then Inr k
                          else Inl ''DataError''),
       aesCbcEncrypt = (\<lambda>k iv d. map (\<lambda>b. b + foldr (+) k 1) (map2 (XOR) d iv) @ replicate 16 16) \<rparr>"

text \<open>
  A bundle with one object of every kind: a text asset, a sprite with a bitmap, a sprite
  without one, a sprite atlas, a texture whose bitmap cannot be encoded, and a mesh.
\<close>

definition stubText :: asset_object where
  "stubText = \<lparr>obj_name = ''hello'', obj_type = TextAsset, obj_pathId = 1, obj_size = 2,
       obj_dump = ''{}'', obj_data = [104, 105], obj_bitmap = None\<rparr>"

definition stubSprite :: asset_object where
  "stubSprite = \<lparr>obj_name = ''icon/a'', obj_type = Sprite, obj_pathId = 2, obj_size = 3,
       obj_dump = ''{}'', obj_data = [], obj_bitmap = Some [1, 2, 3]\<rparr>"

definition stubBroken :: asset_object where
  "stubBroken = \<lparr>obj_name = ''broken'', obj_type = Sprite, obj_pathId = 3, obj_size = 0,
       obj_dump = ''{}'', obj_data = [], obj_bitmap = None\<rparr>"

definition stubAtlas :: asset_object where
  "stubAtlas = \<lparr>obj_name = ''atlas'', obj_type = SpriteAtlas, obj_pathId = 4, obj_size = 0,
       obj_dump = ''{}'', obj_data = [], obj_bitmap = None\<rparr>"

definition stubTexture :: asset_object where
  "stubTexture = \<lparr>obj_name = ''tex'', obj_type = Texture2D, obj_pathId = 5, obj_size = 0,
       obj_dump = ''{}'', obj_data = [], obj_bitmap = Some []\<rparr>"

definition stubMesh :: asset_object where
  "stubMesh = \<lparr>obj_name = ''mesh'', obj_type = OtherType (Some ''Mesh''), obj_pathId = 6,
       obj_size = 0, obj_dump = ''{}'', obj_data = [], obj_bitmap = None\<rparr>"

definition stubObjects :: "asset_object list" where
  "stubObjects = [stubText, stubSprite, stubBroken, stubAtlas, stubTexture, stubMesh]"

definition stubBundle :: "asset_object list \<Rightarrow> asset_bundle" where
  "stubBundle objs =
     \<lparr> objects = objs,
       containerMap = Some (map_of [(1, ''assets/text/hello.bytes'')]),
       objectMap = map_of (map (\<lambda>obj. (obj_pathId obj, obj)) objs) \<rparr>"

text \<open>
  The parser double throws on an empty buffer, returns the bundle above for a buffer that
  starts with the byte 1, and a bundle that holds only the mesh otherwise.
\<close>

definition stubExternals :: externals where
  "stubExternals =
     \<lparr> subtle = stubCrypto,
       calcMd5 = (\<lambda>buffer. ''md5-'' @ natToString (foldr (\<lambda>b a. unat b + a) buffer 0)),
       loadAssetBundle = (\<lambda>buffer options.
          if buffer = [] then Inl ''Error: unsupported bundle''
          else if hd buffer = 1 then Inr (stubBundle stubObjects)
          else Inr (stubBundle [stubMesh])),
       textDecode = map (\<lambda>b. char_of (unat b)),
       toLowerCase = map (\<lambda>c. if 65 \<le> (of_char c :: nat) \<and> (of_char c :: nat) \<le> 90
                               then char_of ((of_char c :: nat) + 32) else c),
       encodePng = (\<lambda>bitmap. if bitmap = [] then None else Some (137 # bitmap)) \<rparr>"

definition stubOptions :: load_options where
  "stubOptions = \<lparr>unityCNKey = '''', env = ''default'', envIndex = 0\<rparr>"

text \<open>A manager that holds the bundle of the parser double, and two export parameters.\<close>

definition stubLoaded :: manager where
  "stubLoaded = newManager\<lparr>bundleMap := [''md5-3'' \<mapsto> stubBundle stubObjects]\<rparr>"

definition stubParams :: "(string \<times> int \<times> string \<times> string) list" where
  "stubParams = [(''md5-3'', 2, ''a.bundle'', ''''),
                 (''md5-3'', 1, ''a.bundle'', ''assets/text/hello.bytes'')]"

text \<open>Three calls for the same image, the conversion completing before the third.\<close>

definition stubEvents :: "event list" where
  "stubEvents = [CallLoadImage ''md5-3'' 2, CallLoadImage ''md5-3'' 2, ConversionDone 0,
                 CallLoadImage ''md5-3'' 2]"

text \<open>
  Files for the parser double: two names for the same bytes, a file whose bundle holds
  nothing that is displayed, and a file the parser rejects.
\<close>

definition stubFileA :: raw_file where
  "stubFileA = \<lparr>file_name = ''a.bundle'', file_bytes = [1, 2]\<rparr>"


definition stubFileMesh :: raw_file where
  "stubFileMesh = \<lparr>file_name = ''m.bundle'', file_bytes = [2, 2]\<rparr>"

definition stubFileBad :: raw_file where
  "stubFileBad = \<lparr>file_name = ''c.bundle'', file_bytes = []\<rparr>"

declare hashLoop.simps [simp del] extendLoop.simps [simp del] xorLoop.simps [simp del]
  blockLoop.simps [simp del] natToString.simps [simp del] loadFilesLoop.simps [simp del]

section \<open>Properties of the key derivation\<close>

lemma length_digestSha1: "length (digestSha1 P data) = 20"
  by (simp add: digestSha1_def)

lemma hashLoop_funpow:
  "hashLoop P i count h = ((digestSha1 P) ^^ nat (count - 1 - i)) h"
proof (induction P i count h rule: hashLoop.induct)
  case (1 P i count hash)
  show ?case
  proof (cases "i < count - 1")
    case True
    then have "nat (count - 1 - i) = Suc (nat (count - 1 - (i + 1)))" by simp
    with True 1 show ?thesis by (subst hashLoop.simps) (simp add: funpow_swap1)
  next
    case False
    then show ?thesis by (subst hashLoop.simps) simp
  qed
qed

lemma rounds_step:
  assumes "0 < (d::nat)"
  shows "(d + 19) div 20 = Suc ((d - 20 + 19) div 20)"
proof (cases "20 \<le> d")
  case True
  then have "d + 19 = (d - 20 + 19) + 20" by simp
  then have "(d + 19) div 20 = ((d - 20 + 19) + 20) div 20" by simp
  then show ?thesis by simp
next
  case False
  then have "(d + 19) div 20 = 1" using assms by simp
  with False show ?thesis by simp
qed

lemma extendLoop_concat:
  "extendLoop P hash keyLen index hashder =
     hashder @ concat (map (\<lambda>m. digestSha1 P ((of_nat (m + 48) :: byte) # hash))
        [index ..< index + (nat keyLen - length hashder + 19) div 20])"
proof (induction "nat keyLen - length hashder" arbitrary: index hashder rule: less_induct)
  case less
  show ?case
  proof (cases "int (length hashder) < keyLen")
    case False
    then have "nat keyLen - length hashder = 0" by simp
    with False show ?thesis by (subst extendLoop.simps) simp
  next
    case True
    let ?e = "digestSha1 P ((of_nat (index + 48) :: byte) # hash)"
    let ?h = "hashder @ ?e"
    have len: "length ?h = length hashder + 20" by (simp add: length_digestSha1)
    have lt: "nat keyLen - length ?h < nat keyLen - length hashder" using True len by linarith
    have r: "(nat keyLen - length hashder + 19) div 20 = Suc ((nat keyLen - length ?h + 19) div 20)"
    proof -
      define d where "d = nat keyLen - length hashder"
      have dpos: "0 < d" using True by (simp add: d_def)
      have d': "nat keyLen - length ?h = d - 20" unfolding len d_def by simp
      show ?thesis unfolding d' using rounds_step[OF dpos] unfolding d_def .
    qed
    have "extendLoop P hash keyLen index hashder = extendLoop P hash keyLen (index + 1) ?h"
      using True by (subst extendLoop.simps) simp
    also have "\<dots> = ?h @ concat (map (\<lambda>m. digestSha1 P ((of_nat (m + 48) :: byte) # hash))
        [index + 1 ..< index + 1 + (nat keyLen - length ?h + 19) div 20])"
      using less[OF lt] .
    finally show ?thesis unfolding r by (simp add: upt_rec[of index])
  qed
qed

lemma length_concat_const:
  "(\<And>x. x \<in> set xs \<Longrightarrow> length (f x) = n) \<Longrightarrow> length (concat (map f xs)) = n * length xs"
  by (induction xs) simp_all

lemma div20_decomp: "\<exists>r < 20. 20 * ((m::nat) div 20) + r = m"
  by (rule exI[of _ "m mod 20"]) simp

lemma specRounds_reaches: "keyLength \<le> 20 * (specRounds keyLength + 1)"
proof (cases "keyLength = 0")
  case True
  then show ?thesis by simp
next
  case False
  define q where "q = (keyLength + 19) div 20"
  obtain r where r: "r < 20" "20 * q + r = keyLength + 19"
    using div20_decomp[of "keyLength + 19"] unfolding q_def by blast
  have "1 \<le> q" using False r by linarith
  then have "specRounds keyLength + 1 = q" by (simp add: specRounds_def q_def)
  then have "20 * (specRounds keyLength + 1) = keyLength + 19 - r" using r by simp
  then show ?thesis using r(1) by simp
qed

lemma specRounds_least: "keyLength \<le> 20 * (n + 1) \<Longrightarrow> specRounds keyLength \<le> n"
proof -
  assume a: "keyLength \<le> 20 * (n + 1)"
  define q where "q = (keyLength + 19) div 20"
  obtain r where r: "r < 20" "20 * q + r = keyLength + 19"
    using div20_decomp[of "keyLength + 19"] unfolding q_def by blast
  have "20 * q \<le> 20 * (n + 1) + 19" using a r by simp
  then have "q \<le> n + 1" by simp
  then show ?thesis by (simp add: specRounds_def q_def)
qed

lemma specRounds_alt: "(k - 20 + 19) div 20 = specRounds k"
proof (cases "20 \<le> k")
  case True
  then have "k + 19 = (k - 20 + 19) + 20" by simp
  then have "(k + 19) div 20 = ((k - 20 + 19) + 20) div 20" by simp
  then show ?thesis by (simp add: specRounds_def)
next
  case False
  then show ?thesis by (simp add: specRounds_def)
qed

lemma length_specDerive:
  "length (specDerive P password salt keyLength iterationCount) = keyLength"
proof -
  have "length (concat (map (\<lambda>marker. digestSha1 P ((of_nat (marker + 48) :: byte) # h))
          [1 ..< Suc (specRounds keyLength)])) = 20 * specRounds keyLength" for h
    by (subst length_concat_const[where n = 20]) (simp_all add: length_digestSha1)
  then show ?thesis
    using specRounds_reaches[of keyLength]
    by (simp add: specDerive_def Let_def length_digestSha1)
qed

lemma getKeyPbkdf1_eq_specDerive:
  assumes k: "0 \<le> keyLen" and c: "2 \<le> countParam"
  shows "getKeyPbkdf1 P password salt keyLen countParam =
           specDerive P password salt (nat keyLen) (nat countParam)"
proof -
  define h0 where "h0 = digestSha1 P (textEncode password @ salt)"
  define hN where "hN = ((digestSha1 P) ^^ ((nat countParam - 1) - 1)) h0"
  define ext where "ext = concat (map (\<lambda>m. digestSha1 P ((of_nat (m + 48) :: byte) # hN))
        [1 ..< Suc (specRounds (nat keyLen))])"
  have it: "nat (countParam - 1 - 1 - 0) = (nat countParam - 1) - 1" using c by simp
  have hL: "hashLoop P 0 (countParam - 1) h0 = hN"
    unfolding hashLoop_funpow it hN_def ..
  have len: "length (digestSha1 P hN) = 20" by (rule length_digestSha1)
  have "extendLoop P hN keyLen 1 (digestSha1 P hN) =
      digestSha1 P hN @ concat (map (\<lambda>m. digestSha1 P ((of_nat (m + 48) :: byte) # hN))
        [1 ..< 1 + (nat keyLen - length (digestSha1 P hN) + 19) div 20])"
    by (rule extendLoop_concat)
  then have ex: "extendLoop P hN keyLen 1 (digestSha1 P hN) = digestSha1 P hN @ ext"
    unfolding len specRounds_alt ext_def by simp
  have sl: "sliceFrom0 (digestSha1 P hN @ ext) keyLen = take (nat keyLen) (digestSha1 P hN @ ext)"
    using k by (simp add: sliceFrom0_def)
  have g: "getKeyPbkdf1 P password salt keyLen countParam = take (nat keyLen) (digestSha1 P hN @ ext)"
    unfolding getKeyPbkdf1_def Let_def h0_def[symmetric] hL ex sl ..
  have s: "specDerive P password salt (nat keyLen) (nat countParam) = take (nat keyLen) (digestSha1 P hN @ ext)"
    unfolding specDerive_def Let_def h0_def[symmetric] hN_def[symmetric] ext_def[symmetric] ..
  show ?thesis unfolding g s ..
qed

text \<open>
  Claim C1. For every password, salt, key length \<open>keyLen \<ge> 0\<close> and iteration count
  \<open>countParam \<ge> 2\<close>, the result of \<^verbatim>\<open>getKeyPbkdf1\<close> is the key of the specification's
  algorithm (\<open>specDerive\<close>) and has exactly \<open>keyLen\<close> bytes; the number of extension
  rounds of that algorithm is the least one whose accumulated length reaches the key
  length. The result is a function of the four arguments and of the digest alone, so
  equal inputs give identical bytes.
\<close>

theorem getKeyPbkdf1_follows_spec:
  assumes "0 \<le> keyLen" and "2 \<le> countParam"
  shows "getKeyPbkdf1 P password salt keyLen countParam =
           specDerive P password salt (nat keyLen) (nat countParam)
         \<and> length (getKeyPbkdf1 P password salt keyLen countParam) = nat keyLen
         \<and> nat keyLen \<le> 20 * (specRounds (nat keyLen) + 1)
         \<and> (\<forall>n. nat keyLen \<le> 20 * (n + 1) \<longrightarrow> specRounds (nat keyLen) \<le> n)"
  using getKeyPbkdf1_eq_specDerive[OF assms] length_specDerive specRounds_reaches specRounds_least
  by simp

theorem getKeyPbkdf1_follows_spec_witness:
  "(0::int) \<le> 32 \<and> (2::int) \<le> 3
   \<and> getKeyPbkdf1 stubCrypto ''pw'' [1, 2] 32 3 = specDerive stubCrypto ''pw'' [1, 2] 32 3
   \<and> length (getKeyPbkdf1 stubCrypto ''pw'' [1, 2] 32 3) = 32
   \<and> (32::nat) \<le> 20 * (specRounds 32 + 1)
   \<and> (32::nat) \<le> 20 * (1 + 1) \<and> specRounds 32 \<le> 1"
proof -
  have n: "nat 32 = (32::nat)" "nat 3 = (3::nat)" by simp_all
  have a: "(0::int) \<le> 32" and b: "(2::int) \<le> 3" and c: "(32::nat) \<le> 20 * (1 + 1)"
    by simp_all
  from getKeyPbkdf1_follows_spec[OF a b, of stubCrypto "''pw''" "[1, 2]"] a b c
  show ?thesis unfolding n by blast
qed

section \<open>Properties of the decryption loop\<close>

lemma xorLoop_length: "length (xorLoop data ks off cl i out) = length out"
proof (induction data ks off cl i out rule: xorLoop.induct)
  case (1 data ks off cl i out)
  then show ?case by (subst xorLoop.simps) simp
qed

lemma xorLoop_nth:
  "j < length out \<Longrightarrow>
   xorLoop data ks off cl i out ! j =
     (if off + i \<le> j \<and> j < off + cl then byteAt data j XOR byteAt ks (j - off) else out ! j)"
proof (induction data ks off cl i out rule: xorLoop.induct)
  case (1 data ks off cl i out)
  show ?case
  proof (cases "i < cl")
    case False
    then have "xorLoop data ks off cl i out = out" by (subst xorLoop.simps) simp
    moreover from False have "\<not> (off + i \<le> j \<and> j < off + cl)" by linarith
    ultimately show ?thesis by auto
  next
    case True
    let ?out = "out[off + i := byteAt data (off + i) XOR byteAt ks i]"
    have step: "xorLoop data ks off cl i out = xorLoop data ks off cl (i + 1) ?out"
      using True by (subst xorLoop.simps) simp
    have IH: "xorLoop data ks off cl (i + 1) ?out ! j =
      (if off + (i + 1) \<le> j \<and> j < off + cl then byteAt data j XOR byteAt ks (j - off) else ?out ! j)"
      using 1 True by simp
    show ?thesis
    proof (cases "j = off + i")
      case True
      with \<open>i < cl\<close> 1(2) show ?thesis unfolding step IH by simp
    next
      case False
      then have "(off + (i + 1) \<le> j) = (off + i \<le> j)" by linarith
      with False show ?thesis unfolding step IH by simp
    qed
  qed
qed

lemma blockLoop_length:
  "length (blockLoop P key data off c out) = length out"
proof (induction P key data off c out rule: blockLoop.induct)
  case (1 P key data off c out)
  then show ?case by (subst blockLoop.simps) (simp add: xorLoop_length Let_def)
qed

lemma blockLoop_nth:
  "length out = length data \<Longrightarrow> j < length data \<Longrightarrow>
   blockLoop P key data off c out ! j =
     (if off \<le> j then data ! j XOR byteAt (keystreamBlock P key (c + (j - off) div 16)) ((j - off) mod 16)
      else out ! j)"
proof (induction P key data off c out rule: blockLoop.induct)
  case (1 P key data off c out)
  show ?case
  proof (cases "off < length data")
    case False
    then have "blockLoop P key data off c out = out" by (subst blockLoop.simps) simp
    with False 1(3) show ?thesis by simp
  next
    case True
    let ?ks = "keystreamBlock P key c"
    let ?cl = "min BLOCK_SIZE (length data - off)"
    let ?out = "xorLoop data ?ks off ?cl 0 out"
    have step: "blockLoop P key data off c out = blockLoop P key data (off + BLOCK_SIZE) (c + 1) ?out"
      using True by (subst blockLoop.simps) (simp add: Let_def)
    have len: "length ?out = length data" using 1(2) by (simp add: xorLoop_length)
    have IH: "blockLoop P key data (off + BLOCK_SIZE) (c + 1) ?out ! j =
       (if off + BLOCK_SIZE \<le> j
        then data ! j XOR byteAt (keystreamBlock P key (c + 1 + (j - (off + BLOCK_SIZE)) div 16)) ((j - (off + BLOCK_SIZE)) mod 16)
        else ?out ! j)"
      using 1(1)[OF True refl refl len 1(3)] .
    have jout: "j < length out" using 1(2,3) by simp
    consider (hi) "off + 16 \<le> j" | (mid) "off \<le> j" "j < off + 16" | (lo) "j < off" by linarith
    then show ?thesis
    proof cases
      case hi
      define r where "r = j - (off + 16)"
      have jr: "j - off = r + 16" using hi by (simp add: r_def)
      have a: "(j - off) div 16 = 1 + r div 16" unfolding jr by simp
      have b: "(j - off) mod 16 = r mod 16" unfolding jr by simp
      from hi show ?thesis unfolding step IH a b by (simp add: BLOCK_SIZE_def r_def)
    next
      case mid
      then have dm: "(j - off) div 16 = 0" "(j - off) mod 16 = j - off" by simp_all
      have inr: "off + 0 \<le> j \<and> j < off + ?cl" using mid 1(3) by (simp add: BLOCK_SIZE_def)
      have "?out ! j = byteAt data j XOR byteAt ?ks (j - off)"
        using xorLoop_nth[OF jout, of data ?ks off ?cl 0] inr by simp
      moreover have "byteAt data j = data ! j" using 1(3) by (simp add: byteAt_def)
      ultimately show ?thesis using mid unfolding step IH dm by (simp add: BLOCK_SIZE_def)
    next
      case lo
      with jout show ?thesis unfolding step IH by (simp add: BLOCK_SIZE_def xorLoop_nth)
    qed
  qed
qed

lemma length_leBytes: "length (leBytes n c) = n"
  by (induction n c rule: leBytes.induct) simp_all

lemma leValue_leBytes: "leValue (leBytes n c) = c mod 256 ^ n"
proof (induction n c rule: leBytes.induct)
  case (1 c)
  then show ?case by simp
next
  case (2 n c)
  have u: "unat (of_nat c :: byte) = c mod 256" by (simp add: unat_of_nat)
  have "c mod (256 * 256 ^ n) = 256 * (c div 256 mod 256 ^ n) + c mod 256"
    by (rule mod_mult2_eq)
  with 2 u show ?case by simp
qed

lemma makeCounterBlock_shape:
  "length (makeCounterBlock c) = 16
   \<and> leValue (take 8 (makeCounterBlock c)) = c mod 2 ^ 64
   \<and> drop 8 (makeCounterBlock c) = replicate 8 0"
proof -
  have "leValue (leBytes 8 c) = c mod 256 ^ 8" by (rule leValue_leBytes)
  moreover have "(256::nat) ^ 8 = 2 ^ 64" by simp
  ultimately show ?thesis by (simp add: makeCounterBlock_def length_leBytes del: leBytes.simps)
qed

lemma decrypt_accepted:
  assumes imp: "importKey P (getKeyPbkdf1 P password salt keyLen countParam) = Inr cryptoKey"
  shows "decryptAesCtrPbkdf1 P data password salt keyLen countParam =
           Inr (map (\<lambda>j. data ! j XOR byteAt (keystreamBlock P cryptoKey (j div 16 + 1)) (j mod 16))
                  [0 ..< length data])"
proof -
  let ?out = "blockLoop P cryptoKey data 0 1 (replicate (length data) 0)"
  have "length ?out = length data" by (simp add: blockLoop_length)
  moreover have "?out ! j = data ! j XOR byteAt (keystreamBlock P cryptoKey (j div 16 + 1)) (j mod 16)"
    if "j < length data" for j
    using blockLoop_nth[of "replicate (length data) 0" data j P cryptoKey 0 1] that by (simp add: add.commute)
  ultimately have "?out = map (\<lambda>j. data ! j XOR byteAt (keystreamBlock P cryptoKey (j div 16 + 1)) (j mod 16))
                       [0 ..< length data]"
    by (intro nth_equalityI) simp_all
  then show ?thesis using imp by (simp add: decryptAesCtrPbkdf1_def)
qed

text \<open>
  Claim C2. When the platform accepts the key derived with key length 32 and iteration
  count 100, \<^verbatim>\<open>decryptAesCtrPbkdf1\<close> returns an output as long as its input. The byte
  at position \<open>j\<close>, which lies in block \<open>i = j div 16\<close>, is the input byte XORed with
  byte \<open>j mod 16\<close> of the keystream block of counter \<open>i + 1\<close>; a shorter final block
  reads only its own positions. That keystream block is the first 16 bytes of the
  encryption, under the imported key and the zero IV, of a 16-byte counter block whose
  bytes 0 to 7 are \<open>i + 1\<close> as a 64-bit little-endian number and whose bytes 8 to 15
  are zero.
\<close>

theorem decryptAesCtrPbkdf1_keystream:
  assumes imp: "importKey P (specDerive P password salt 32 100) = Inr cryptoKey"
  shows "\<exists>out. decryptAesCtrPbkdf1 P data password salt 32 100 = Inr out
           \<and> length out = length data
           \<and> (\<forall>j < length data.
                 out ! j = data ! j XOR byteAt (keystreamBlock P cryptoKey (j div 16 + 1)) (j mod 16))
           \<and> (\<forall>i. keystreamBlock P cryptoKey (i + 1) =
                     take 16 (aesCbcEncrypt P cryptoKey (replicate 16 0) (makeCounterBlock (i + 1)))
                   \<and> length (makeCounterBlock (i + 1)) = 16
                   \<and> leValue (take 8 (makeCounterBlock (i + 1))) = (i + 1) mod 2 ^ 64
                   \<and> drop 8 (makeCounterBlock (i + 1)) = replicate 8 0)"
proof -
  have g: "getKeyPbkdf1 P password salt 32 100 = specDerive P password salt 32 100"
    using getKeyPbkdf1_eq_specDerive[of 32 100 P password salt] by simp
  show ?thesis
    unfolding decrypt_accepted[OF imp[folded g]]
    by (simp add: makeCounterBlock_shape keystreamBlock_def BLOCK_SIZE_def zeroIV_def)
qed

theorem decryptAesCtrPbkdf1_keystream_witness:
  "importKey stubCrypto (specDerive stubCrypto ''pw'' [1, 2] 32 100)
       = Inr (specDerive stubCrypto ''pw'' [1, 2] 32 100)
   \<and> (\<exists>out. decryptAesCtrPbkdf1 stubCrypto [1, 2, 3, 4, 5, 6, 7, 8, 9, 10, 11, 12, 13, 14, 15, 16, 17, 18]
                ''pw'' [1, 2] 32 100 = Inr out
          \<and> length out = 18
          \<and> out ! 17 =
                18 XOR byteAt (keystreamBlock stubCrypto (specDerive stubCrypto ''pw'' [1, 2] 32 100) 2) 1
          \<and> length (makeCounterBlock 2) = 16
          \<and> leValue (take 8 (makeCounterBlock 2)) = 2
          \<and> drop 8 (makeCounterBlock 2) = replicate 8 0)"
proof -
  have "length (specDerive stubCrypto ''pw'' [1, 2] 32 100) = 32"
    by (rule length_specDerive)
  then have imp: "importKey stubCrypto (specDerive stubCrypto ''pw'' [1, 2] 32 100)
       = Inr (specDerive stubCrypto ''pw'' [1, 2] 32 100)"
    by (simp add: stubCrypto_def)
  from decryptAesCtrPbkdf1_keystream[OF imp,
        of "[1, 2, 3, 4, 5, 6, 7, 8, 9, 10, 11, 12, 13, 14, 15, 16, 17, 18]"]
  obtain out where o:
    "decryptAesCtrPbkdf1 stubCrypto [1, 2, 3, 4, 5, 6, 7, 8, 9, 10, 11, 12, 13, 14, 15, 16, 17, 18]
       ''pw'' [1, 2] 32 100 = Inr out"
    "length out = length [1, 2, 3, 4, 5, 6, 7, 8, 9, 10, 11, 12, 13, 14, 15, 16, 17, 18 :: byte]"
    "\<forall>j < length [1, 2, 3, 4, 5, 6, 7, 8, 9, 10, 11, 12, 13, 14, 15, 16, 17, 18 :: byte].
       out ! j = [1, 2, 3, 4, 5, 6, 7, 8, 9, 10, 11, 12, 13, 14, 15, 16, 17, 18] ! j XOR
         byteAt (keystreamBlock stubCrypto (specDerive stubCrypto ''pw'' [1, 2] 32 100) (j div 16 + 1))
           (j mod 16)"
    "\<forall>i. length (makeCounterBlock (i + 1)) = 16
       \<and> leValue (take 8 (makeCounterBlock (i + 1))) = (i + 1) mod 2 ^ 64
       \<and> drop 8 (makeCounterBlock (i + 1)) = replicate 8 0"
    by blast
  from o(3)[rule_format, of 17] have "out ! 17 =
      18 XOR byteAt (keystreamBlock stubCrypto (specDerive stubCrypto ''pw'' [1, 2] 32 100) 2) 1"
    by (simp add: numeral_2_eq_2)
  moreover have e: "(1::nat) + 1 = 2" "(2::nat) mod 2 ^ 64 = 2" by simp_all
  from o(4)[rule_format, of 1] have "length (makeCounterBlock 2) = 16
       \<and> leValue (take 8 (makeCounterBlock 2)) = 2
       \<and> drop 8 (makeCounterBlock 2) = replicate 8 0"
    unfolding e .
  ultimately show ?thesis using imp o(1,2) by simp
qed

text \<open>
  Claim C9, refuted as stated. \<^verbatim>\<open>crypto.subtle.importKey\<close> accepts a raw AES key of 16,
  24 or 32 bytes and rejects a key of any other length, as the test double does. With
  key length 20 and iteration count 2 the derived key has 20 bytes, the import rejects
  it, and \<^verbatim>\<open>decryptAesCtrPbkdf1\<close> rejects: it returns no output that could be decrypted
  a second time.
\<close>

theorem decryptAesCtrPbkdf1_key_length_20:
  "decryptAesCtrPbkdf1 stubCrypto [1, 2, 3] ''pw'' [1, 2] 20 2 = Inl ''DataError''"
proof -
  have "getKeyPbkdf1 stubCrypto ''pw'' [1, 2] 20 2 = specDerive stubCrypto ''pw'' [1, 2] 20 2"
    using getKeyPbkdf1_eq_specDerive[of 20 2 stubCrypto "''pw''" "[1, 2]"] by simp
  then have "length (getKeyPbkdf1 stubCrypto ''pw'' [1, 2] 20 2) = 20"
    by (simp add: length_specDerive)
  then show ?thesis
    by (simp add: decryptAesCtrPbkdf1_def stubCrypto_def)
qed

text \<open>
  Claim C9, amended. For every data, password, salt, key length and iteration count:
  when the platform's key import accepts the derived key, \<^verbatim>\<open>decryptAesCtrPbkdf1\<close>
  returns an output as long as the data, and decrypting that output with the same
  password, salt, key length and iteration count returns the original data; when the
  import rejects the derived key, \<^verbatim>\<open>decryptAesCtrPbkdf1\<close> rejects with the error of the
  import, whatever the data.
\<close>

theorem decryptAesCtrPbkdf1_involution:
  "(\<forall>cryptoKey. importKey P (getKeyPbkdf1 P password salt keyLen countParam) = Inr cryptoKey
       \<longrightarrow> (\<exists>out. decryptAesCtrPbkdf1 P data password salt keyLen countParam = Inr out
                  \<and> length out = length data
                  \<and> decryptAesCtrPbkdf1 P out password salt keyLen countParam = Inr data))
   \<and> (\<forall>err. importKey P (getKeyPbkdf1 P password salt keyLen countParam) = Inl err
       \<longrightarrow> decryptAesCtrPbkdf1 P data password salt keyLen countParam = Inl err)"
proof (intro conjI allI impI)
  fix cryptoKey
  assume imp: "importKey P (getKeyPbkdf1 P password salt keyLen countParam) = Inr cryptoKey"
  let ?k = "\<lambda>j. byteAt (keystreamBlock P cryptoKey (j div 16 + 1)) (j mod 16)"
  let ?out = "map (\<lambda>j. data ! j XOR ?k j) [0 ..< length data]"
  have 1: "decryptAesCtrPbkdf1 P data password salt keyLen countParam = Inr ?out"
    by (rule decrypt_accepted[OF imp])
  have "map (\<lambda>j. ?out ! j XOR ?k j) [0 ..< length ?out] = data"
    by (intro nth_equalityI) (simp_all add: xor.assoc)
  then have 2: "decryptAesCtrPbkdf1 P ?out password salt keyLen countParam = Inr data"
    using decrypt_accepted[OF imp, of ?out] by simp
  have 3: "length ?out = length data" by simp
  from 1 2 3 show "\<exists>out. decryptAesCtrPbkdf1 P data password salt keyLen countParam = Inr out
                  \<and> length out = length data
                  \<and> decryptAesCtrPbkdf1 P out password salt keyLen countParam = Inr data"
    by blast
next
  fix err
  assume "importKey P (getKeyPbkdf1 P password salt keyLen countParam) = Inl err"
  then show "decryptAesCtrPbkdf1 P data password salt keyLen countParam = Inl err"
    by (simp add: decryptAesCtrPbkdf1_def)
qed

theorem decryptAesCtrPbkdf1_involution_witness:
  "importKey stubCrypto (getKeyPbkdf1 stubCrypto ''pw'' [1, 2] 16 3)
     = Inr (getKeyPbkdf1 stubCrypto ''pw'' [1, 2] 16 3)
   \<and> (\<exists>out. decryptAesCtrPbkdf1 stubCrypto [104, 105, 33] ''pw'' [1, 2] 16 3 = Inr out
          \<and> length out = 3
          \<and> decryptAesCtrPbkdf1 stubCrypto out ''pw'' [1, 2] 16 3 = Inr [104, 105, 33])
   \<and> importKey stubCrypto (getKeyPbkdf1 stubCrypto ''pw'' [1, 2] 17 2) = Inl ''DataError''
   \<and> decryptAesCtrPbkdf1 stubCrypto [104, 105, 33] ''pw'' [1, 2] 17 2 = Inl ''DataError''"
proof -
  have l: "length (getKeyPbkdf1 stubCrypto ''pw'' [1, 2] keyLen 2) = nat keyLen"
    "length (getKeyPbkdf1 stubCrypto ''pw'' [1, 2] keyLen 3) = nat keyLen"
    if "0 \<le> keyLen" for keyLen
    using that getKeyPbkdf1_eq_specDerive[of keyLen 2 stubCrypto "''pw''" "[1, 2]"]
      getKeyPbkdf1_eq_specDerive[of keyLen 3 stubCrypto "''pw''" "[1, 2]"]
    by (simp_all add: length_specDerive)
  have a: "importKey stubCrypto (getKeyPbkdf1 stubCrypto ''pw'' [1, 2] 16 3)
     = Inr (getKeyPbkdf1 stubCrypto ''pw'' [1, 2] 16 3)"
    using l(2)[of 16] by (simp add: stubCrypto_def)
  have c: "importKey stubCrypto (getKeyPbkdf1 stubCrypto ''pw'' [1, 2] 17 2) = Inl ''DataError''"
    using l(1)[of 17] by (simp add: stubCrypto_def)
  from decryptAesCtrPbkdf1_involution[of stubCrypto "''pw''" "[1, 2]" 16 3 "[104, 105, 33]"] a
  have d: "\<exists>out. decryptAesCtrPbkdf1 stubCrypto [104, 105, 33] ''pw'' [1, 2] 16 3 = Inr out
          \<and> length out = 3
          \<and> decryptAesCtrPbkdf1 stubCrypto out ''pw'' [1, 2] 16 3 = Inr [104, 105, 33]"
    by (simp add: numeral_3_eq_3)
  from decryptAesCtrPbkdf1_involution[of stubCrypto "''pw''" "[1, 2]" 17 2 "[104, 105, 33]"] c
  have e: "decryptAesCtrPbkdf1 stubCrypto [104, 105, 33] ''pw'' [1, 2] 17 2 = Inl ''DataError''"
    by simp
  from a c d e show ?thesis by blast
qed

section \<open>Archive paths\<close>

text \<open>
  Claim C8. For an entry of \<^verbatim>\<open>objMap\<close> that has an object, the archive path depends on
  the grouping policy and on that entry alone. With \<^verbatim>\<open>NONE\<close> it is the flat
  \<open>name.ext\<close>, where \<open>name\<close> is the object's name without the characters that are
  illegal in file names; with \<^verbatim>\<open>TYPE_NAME\<close> it is \<open>Type/name.ext\<close>; with
  \<^verbatim>\<open>SOURCE_FILE_NAME\<close> it is \<open>fileName/name.ext\<close>; with \<^verbatim>\<open>CONTAINER_PATH\<close> it is
  the container path as it is when that path is not empty, and the flat name otherwise.
  Changing the entry of another key changes nothing for this one.
\<close>

theorem getObjPath_by_policy:
  assumes "objMap key = Some data" and "entry_obj data = Some obj"
  shows "getObjPath objMap NONE key ext = getLegalFileName (obj_name obj) @ ''.'' @ ext
       \<and> (\<forall>typeName. assetTypeName (obj_type obj) = Some typeName \<longrightarrow>
             getObjPath objMap TYPE_NAME key ext
               = typeName @ ''/'' @ getLegalFileName (obj_name obj) @ ''.'' @ ext)
       \<and> getObjPath objMap SOURCE_FILE_NAME key ext
             = entry_fileName data @ ''/'' @ getLegalFileName (obj_name obj) @ ''.'' @ ext
       \<and> (entry_container data \<noteq> '''' \<longrightarrow>
             getObjPath objMap CONTAINER_PATH key ext = entry_container data)
       \<and> (entry_container data = '''' \<longrightarrow>
             getObjPath objMap CONTAINER_PATH key ext = getObjPath objMap NONE key ext)
       \<and> (\<forall>groupMethod key' data'. key' \<noteq> key \<longrightarrow>
             getObjPath (objMap(key' \<mapsto> data')) groupMethod key ext
               = getObjPath objMap groupMethod key ext)"
  using assms by (simp add: getObjPath_def Let_def)

lemma stub_keys:
  "getAssetKey ''md5-3'' 2 = ''md5-3_2''" "getAssetKey ''md5-3'' 1 = ''md5-3_1''"
  by code_simp+

theorem getObjPath_by_policy_witness:
  "makeObjMap stubLoaded stubParams ''md5-3_2'' =
        Some \<lparr>entry_key = ''md5-3_2'', entry_fileName = ''a.bundle'', entry_container = '''',
               entry_obj = Some stubSprite\<rparr>
   \<and> makeObjMap stubLoaded stubParams ''md5-3_1'' =
        Some \<lparr>entry_key = ''md5-3_1'', entry_fileName = ''a.bundle'',
               entry_container = ''assets/text/hello.bytes'', entry_obj = Some stubText\<rparr>
   \<and> getObjPath (makeObjMap stubLoaded stubParams) NONE ''md5-3_2'' ''png'' = ''icona.png''
   \<and> getObjPath (makeObjMap stubLoaded stubParams) TYPE_NAME ''md5-3_2'' ''png'' = ''Sprite/icona.png''
   \<and> getObjPath (makeObjMap stubLoaded stubParams) SOURCE_FILE_NAME ''md5-3_2'' ''png''
         = ''a.bundle/icona.png''
   \<and> getObjPath (makeObjMap stubLoaded stubParams) CONTAINER_PATH ''md5-3_2'' ''png'' = ''icona.png''
   \<and> getObjPath (makeObjMap stubLoaded stubParams) CONTAINER_PATH ''md5-3_1'' ''txt''
         = ''assets/text/hello.bytes''"
proof -
  let ?m = "makeObjMap stubLoaded stubParams"
  let ?e2 = "\<lparr>entry_key = ''md5-3_2'', entry_fileName = ''a.bundle'', entry_container = '''',
               entry_obj = Some stubSprite\<rparr>"
  let ?e1 = "\<lparr>entry_key = ''md5-3_1'', entry_fileName = ''a.bundle'',
               entry_container = ''assets/text/hello.bytes'', entry_obj = Some stubText\<rparr>"
  have m2: "?m ''md5-3_2'' = Some ?e2"
    by (simp add: makeObjMap_def stubParams_def stub_keys getAssetObj_def stubLoaded_def
          newManager_def stubBundle_def stubObjects_def stubText_def stubSprite_def
          stubBroken_def stubAtlas_def stubTexture_def stubMesh_def Let_def)
  have m1: "?m ''md5-3_1'' = Some ?e1"
    by (simp add: makeObjMap_def stubParams_def stub_keys getAssetObj_def stubLoaded_def
          newManager_def stubBundle_def stubObjects_def stubText_def stubSprite_def
          stubBroken_def stubAtlas_def stubTexture_def stubMesh_def Let_def)
  have o2: "entry_obj ?e2 = Some stubSprite" and o1: "entry_obj ?e1 = Some stubText"
    by simp_all
  have n: "getLegalFileName (obj_name stubSprite) = ''icona''"
    "assetTypeName (obj_type stubSprite) = Some ''Sprite''"
    by (simp_all add: stubSprite_def getLegalFileName_def illegalChars_def)
  from getObjPath_by_policy[where objMap = ?m and key = "''md5-3_2''" and ext = "''png''", OF m2 o2]
    getObjPath_by_policy[where objMap = ?m and key = "''md5-3_1''" and ext = "''txt''", OF m1 o1]
  show ?thesis unfolding m1 m2 n by simp
qed

section \<open>Properties of the image cache\<close>

lemma loadImage_cached:
  "imageMap st (getAssetKey fileId pathId) = Some h \<Longrightarrow> loadImage E st fileId pathId = (Some h, st)"
  by (simp add: loadImage_def)

lemma loadImage_fresh:
  assumes "imageMap st (getAssetKey fileId pathId) = None"
    and "getAssetObj st fileId pathId = Some obj"
    and "obj_type obj = Sprite \<or> obj_type obj = Texture2D"
  shows "loadImage E st fileId pathId =
           (Some (length (promises st)),
            st\<lparr>promises := promises st @ [Pending (getAssetObjPNG E obj)],
               decodeCalls := decodeCalls st @ [getAssetKey fileId pathId],
               imageMap := (imageMap st)(getAssetKey fileId pathId \<mapsto> length (promises st))\<rparr>)"
  using assms by (auto simp: loadImage_def Let_def)

lemma loadImage_none:
  assumes "imageMap st (getAssetKey fileId pathId) = None"
    and "getAssetObj st fileId pathId = None
         \<or> (\<exists>obj. getAssetObj st fileId pathId = Some obj \<and> obj_type obj \<noteq> Sprite \<and> obj_type obj \<noteq> Texture2D)"
  shows "loadImage E st fileId pathId = (None, st)"
  using assms by (auto simp: loadImage_def Let_def)

text \<open>The three ways a call of \<^verbatim>\<open>loadImage\<close> can go.\<close>

lemma loadImage_cases:
  obtains (cached) h where "imageMap st (getAssetKey fileId pathId) = Some h"
      "loadImage E st fileId pathId = (Some h, st)"
  | (absent) "imageMap st (getAssetKey fileId pathId) = None"
      "loadImage E st fileId pathId = (None, st)"
  | (fresh) obj where "imageMap st (getAssetKey fileId pathId) = None"
      "getAssetObj st fileId pathId = Some obj"
      "obj_type obj = Sprite \<or> obj_type obj = Texture2D"
      "loadImage E st fileId pathId =
           (Some (length (promises st)),
            st\<lparr>promises := promises st @ [Pending (getAssetObjPNG E obj)],
               decodeCalls := decodeCalls st @ [getAssetKey fileId pathId],
               imageMap := (imageMap st)(getAssetKey fileId pathId \<mapsto> length (promises st))\<rparr>)"
proof (cases "imageMap st (getAssetKey fileId pathId)")
  case (Some h)
  then show ?thesis using cached loadImage_cached by blast
next
  case None
  show ?thesis
  proof (cases "getAssetObj st fileId pathId")
    case N: None
    then show ?thesis using absent None loadImage_none by blast
  next
    case (Some obj)
    show ?thesis
    proof (cases "obj_type obj = Sprite \<or> obj_type obj = Texture2D")
      case True
      then show ?thesis using fresh[OF None Some True] loadImage_fresh[OF None Some True] by blast
    next
      case False
      then have "loadImage E st fileId pathId = (None, st)"
        using loadImage_none[OF None] Some by blast
      then show ?thesis using absent None by blast
    qed
  qed
qed

lemma settle_imageMap: "imageMap (settle st h) = imageMap st"
  by (simp add: settle_def split: image_promise.split option.split)

lemma settle_decodeCalls: "decodeCalls (settle st h) = decodeCalls st"
  by (simp add: settle_def split: image_promise.split option.split)

lemma settle_length: "length (promises (settle st h)) = length (promises st)"
  by (simp add: settle_def split: image_promise.split option.split)

text \<open>What a call of \<^verbatim>\<open>loadFile\<close> leaves as it is, in each of its two parts.\<close>

lemma loadFileBegin_frame:
  "imageMap (snd (loadFileBegin E st f options)) = imageMap st"
  "decodeCalls (snd (loadFileBegin E st f options)) = decodeCalls st"
  "promises (snd (loadFileBegin E st f options)) = promises st"
  "bundleMap (snd (loadFileBegin E st f options)) = bundleMap st"
  "pendingLoads (snd (loadFileBegin E st f options)) = pendingLoads st"
  by (simp_all add: loadFileBegin_def Let_def split: option.split)

lemma loadFileEnd_frame:
  "imageMap (snd (loadFileEnd E st f parsed)) = imageMap st"
  "decodeCalls (snd (loadFileEnd E st f parsed)) = decodeCalls st"
  "promises (snd (loadFileEnd E st f parsed)) = promises st"
  "parserCalls (snd (loadFileEnd E st f parsed)) = parserCalls st"
  by (simp_all add: loadFileEnd_def Let_def split: option.split sum.split)

lemma beginLoad_frame:
  "imageMap (beginLoad E st f options) = imageMap st"
  "decodeCalls (beginLoad E st f options) = decodeCalls st"
  "promises (beginLoad E st f options) = promises st"
proof -
  obtain parsed st1 where b: "loadFileBegin E st f options = (parsed, st1)"
    by (cases "loadFileBegin E st f options")
  from loadFileBegin_frame(1-3)[of E st f options] b
  have f: "imageMap st1 = imageMap st" "decodeCalls st1 = decodeCalls st" "promises st1 = promises st"
    by simp_all
  show "imageMap (beginLoad E st f options) = imageMap st"
    "decodeCalls (beginLoad E st f options) = decodeCalls st"
    "promises (beginLoad E st f options) = promises st"
    by (simp_all add: beginLoad_def b f loadFileEnd_frame split: option.split)
qed

lemma endLoad_frame:
  "imageMap (endLoad E st i) = imageMap st"
  "decodeCalls (endLoad E st i) = decodeCalls st"
  "promises (endLoad E st i) = promises st"
  "parserCalls (endLoad E st i) = parserCalls st"
  by (simp_all add: endLoad_def loadFileEnd_frame split: option.split prod.split)

text \<open>The loop of \<^verbatim>\<open>exportAssets\<close> changes nothing but the log of its own decodes.\<close>

lemma cachedBlob_log: "cachedBlob (st\<lparr>exportDecodes := l\<rparr>) k = cachedBlob st k"
  by (simp add: cachedBlob_def isFulfilled_def await_def settle_def Let_def
           split: option.split image_promise.split)

lemma prepareLoop_state:
  "snd (prepareLoop st es acc) =
     st\<lparr>exportDecodes := exportDecodes st
            @ map entry_key (filter (\<lambda>e. cachedBlob st (entry_key e) = None \<and> entry_obj e \<noteq> None) es)\<rparr>"
proof (induction es arbitrary: st acc)
  case Nil
  then show ?case by simp
next
  case (Cons e es)
  show ?case
    by (simp add: Cons.IH cachedBlob_log Let_def split: option.split)
qed

lemma exportPrepare_state:
  "snd (exportPrepare st params) =
     st\<lparr>exportDecodes := exportDecodes st
            @ map entry_key
                (filter (\<lambda>e. cachedBlob st (entry_key e) = None)
                   (filter (\<lambda>e. isImageAssetObj (entry_obj e)) (objValues st params)))\<rparr>"
proof -
  have "(isImageAssetObj obj \<and> c \<and> (\<exists>y. obj = Some y)) = (isImageAssetObj obj \<and> c)" for obj c
    by (cases obj) (auto simp: isImageAssetObj_def)
  then show ?thesis by (simp add: exportPrepare_def prepareLoop_state)
qed

lemma exportPrepare_frame:
  "imageMap (snd (exportPrepare st params)) = imageMap st"
  "decodeCalls (snd (exportPrepare st params)) = decodeCalls st"
  "promises (snd (exportPrepare st params)) = promises st"
  "bundleMap (snd (exportPrepare st params)) = bundleMap st"
  "parserCalls (snd (exportPrepare st params)) = parserCalls st"
  by (simp_all add: exportPrepare_state)

lemma step_imageMap_mono:
  "imageMap st k = Some h \<Longrightarrow> imageMap (step E st e) k = Some h"
proof (cases e)
  case (CallLoadImage fileId pathId)
  assume a: "imageMap st k = Some h"
  show ?thesis
  proof (cases rule: loadImage_cases[of st fileId pathId E])
    case (cached h')
    then show ?thesis using a CallLoadImage by simp
  next
    case absent
    then show ?thesis using a CallLoadImage by simp
  next
    case (fresh obj)
    then have "k \<noteq> getAssetKey fileId pathId" using a by auto
    then show ?thesis using a CallLoadImage fresh(4) by simp
  qed
next
  case (ConversionDone h')
  assume "imageMap st k = Some h"
  then show ?thesis using ConversionDone by (simp add: settle_imageMap)
next
  case (BeginLoadFile f options)
  assume "imageMap st k = Some h"
  then show ?thesis using BeginLoadFile by (simp add: beginLoad_frame)
next
  case (EndLoadFile i)
  assume "imageMap st k = Some h"
  then show ?thesis using EndLoadFile by (simp add: endLoad_frame)
next
  case (CallExportAssets params)
  assume "imageMap st k = Some h"
  then show ?thesis using CallExportAssets by (simp add: exportPrepare_frame)
qed

lemma step_decode_count:
  "count_list (decodeCalls (step E st e)) k =
     count_list (decodeCalls st) k
       + (if imageMap st k = None \<and> imageMap (step E st e) k \<noteq> None then 1 else 0)"
proof (cases e)
  case (CallLoadImage fileId pathId)
  show ?thesis
  proof (cases rule: loadImage_cases[of st fileId pathId E])
    case (cached h')
    then show ?thesis using CallLoadImage by auto
  next
    case absent
    then show ?thesis using CallLoadImage by auto
  next
    case (fresh obj)
    then show ?thesis using CallLoadImage by auto
  qed
next
  case (ConversionDone h')
  then show ?thesis by (auto simp: settle_imageMap settle_decodeCalls)
next
  case (BeginLoadFile f options)
  then show ?thesis by (auto simp: beginLoad_frame)
next
  case (EndLoadFile i)
  then show ?thesis by (auto simp: endLoad_frame)
next
  case (CallExportAssets params)
  then show ?thesis by (auto simp: exportPrepare_frame)
qed

lemma run_imageMap_mono:
  "imageMap st k = Some h \<Longrightarrow> imageMap (run E st evs) k = Some h"
  by (induction evs arbitrary: st) (simp_all add: step_imageMap_mono)

lemma run_decode_count:
  "count_list (decodeCalls (run E st evs)) k =
     count_list (decodeCalls st) k
       + (if imageMap st k = None \<and> imageMap (run E st evs) k \<noteq> None then 1 else 0)"
proof (induction evs arbitrary: st)
  case Nil
  then show ?case by auto
next
  case (Cons e evs)
  show ?case
  proof (cases "imageMap (step E st e) k")
    case None
    then have "imageMap st k = None"
      using step_imageMap_mono[of st k _ E e] by (cases "imageMap st k") auto
    with None show ?thesis using Cons[of "step E st e"] step_decode_count[of E st e k] by simp
  next
    case (Some h)
    then have "imageMap (run E (step E st e) evs) k = Some h" by (rule run_imageMap_mono)
    with Some show ?thesis using Cons[of "step E st e"] step_decode_count[of E st e k] by simp
  qed
qed

lemma loadImage_returns_published:
  "loadImage E st fileId pathId = (Some h, st') \<Longrightarrow> imageMap st' (getAssetKey fileId pathId) = Some h"
  by (cases rule: loadImage_cases[of st fileId pathId E]) auto

lemma returned_published:
  "(k, h) \<in> set (returned E st evs) \<Longrightarrow> imageMap (run E st evs) k = Some h"
proof (induction evs arbitrary: st)
  case Nil
  then show ?case by simp
next
  case (Cons e evs)
  show ?case
  proof (cases e)
    case (CallLoadImage fileId pathId)
    from Cons.prems consider
        (here) "fst (loadImage E st fileId pathId) = Some h" "k = getAssetKey fileId pathId"
      | (later) "(k, h) \<in> set (returned E (step E st e) evs)"
      unfolding CallLoadImage by (auto split: option.splits)
    then show ?thesis
    proof cases
      case here
      then have "loadImage E st fileId pathId = (Some h, step E st e)"
        unfolding CallLoadImage by (cases "loadImage E st fileId pathId") simp
      then have "imageMap (step E st e) k = Some h"
        using here(2) loadImage_returns_published by blast
      then show ?thesis by (simp add: run_imageMap_mono)
    next
      case later
      then show ?thesis using Cons.IH by simp
    qed
  next
    case (ConversionDone h')
    then show ?thesis using Cons by simp
  next
    case (BeginLoadFile f options)
    then show ?thesis using Cons by simp
  next
    case (EndLoadFile i)
    then show ?thesis using Cons by simp
  next
    case (CallExportAssets params)
    then show ?thesis using Cons by simp
  qed
qed

lemma settle_nth:
  "j < length (promises st) \<Longrightarrow>
   promisedBytes (promises (settle st h) ! j) = promisedBytes (promises st ! j)
   \<and> (promises st ! j = Fulfilled v \<longrightarrow> promises (settle st h) ! j = Fulfilled v)"
  by (cases "j = h")
     (auto simp: settle_def promisedBytes_def split: image_promise.split option.split)

lemma step_promises:
  assumes "j < length (promises st)"
  shows "j < length (promises (step E st e))
       \<and> promisedBytes (promises (step E st e) ! j) = promisedBytes (promises st ! j)
       \<and> (promises st ! j = Fulfilled v \<longrightarrow> promises (step E st e) ! j = Fulfilled v)"
proof (cases e)
  case (CallLoadImage fileId pathId)
  show ?thesis
    by (cases rule: loadImage_cases[of st fileId pathId E])
       (use assms CallLoadImage in \<open>auto simp: nth_append\<close>)
next
  case (ConversionDone h')
  then show ?thesis using assms settle_nth[OF assms, of h' v] by (simp add: settle_length)
next
  case (BeginLoadFile f options)
  then show ?thesis using assms by (simp add: beginLoad_frame)
next
  case (EndLoadFile i)
  then show ?thesis using assms by (simp add: endLoad_frame)
next
  case (CallExportAssets params)
  then show ?thesis using assms by (simp add: exportPrepare_frame)
qed

lemma run_promises:
  "j < length (promises st) \<Longrightarrow>
   j < length (promises (run E st evs))
   \<and> promisedBytes (promises (run E st evs) ! j) = promisedBytes (promises st ! j)
   \<and> (promises st ! j = Fulfilled v \<longrightarrow> promises (run E st evs) ! j = Fulfilled v)"
proof (induction evs arbitrary: st)
  case Nil
  then show ?case by simp
next
  case (Cons e evs)
  from step_promises[OF Cons.prems, of E e v] Cons.IH[of "step E st e"]
  show ?case by simp
qed

lemma settle_pending:
  assumes "h < length (promises st)" and "promises st ! h = Pending b"
  shows "\<exists>v. promises (settle st h) ! h = Fulfilled v \<and> map_option blob v = b"
  using assms by (cases b) (auto simp: settle_def)

lemma settle_fulfilled:
  assumes "h < length (promises st)" and "promises st ! h = Fulfilled v"
  shows "settle st h = st"
  using assms by (simp add: settle_def)

lemma await_value:
  assumes "h < length (promises st)"
  shows "map_option blob (fst (await st h)) = promisedBytes (promises st ! h)
       \<and> snd (await st h) = settle st h"
proof (cases "promises st ! h")
  case (Pending b)
  from settle_pending[OF assms Pending] obtain v where
    v: "promises (settle st h) ! h = Fulfilled v" "map_option blob v = b" by blast
  then show ?thesis using assms Pending
    by (simp add: await_def Let_def settle_length promisedBytes_def)
next
  case (Fulfilled v)
  then show ?thesis using assms settle_fulfilled[OF assms Fulfilled]
    by (simp add: await_def Let_def promisedBytes_def)
qed

lemma await_out_of_range:
  "\<not> h < length (promises st) \<Longrightarrow> await st h = (None, st)"
  by (simp add: await_def Let_def settle_def)

text \<open>The value a caller of \<^verbatim>\<open>loadImage\<close> receives when it awaits the returned promise.\<close>

lemma loadImage_await_bytes:
  assumes "getAssetObj st fileId pathId = Some obj"
    and "obj_type obj = Sprite \<or> obj_type obj = Texture2D"
  shows "\<exists>h st1. loadImage E st fileId pathId = (Some h, st1)
           \<and> map_option blob (fst (await st1 h)) = imageBytes E st (getAssetKey fileId pathId) obj"
proof (cases rule: loadImage_cases[of st fileId pathId E])
  case (cached h)
  show ?thesis
  proof (cases "h < length (promises st)")
    case True
    then show ?thesis using cached await_value[OF True] by (simp add: imageBytes_def)
  next
    case False
    then show ?thesis using cached await_out_of_range[OF False] by (simp add: imageBytes_def)
  qed
next
  case absent
  then show ?thesis using assms by (auto simp: loadImage_def Let_def)
next
  case (fresh obj')
  then have eq: "obj' = obj" using assms by simp
  let ?st1 = "st\<lparr>promises := promises st @ [Pending (getAssetObjPNG E obj)],
               decodeCalls := decodeCalls st @ [getAssetKey fileId pathId],
               imageMap := (imageMap st)(getAssetKey fileId pathId \<mapsto> length (promises st))\<rparr>"
  have l: "length (promises st) < length (promises ?st1)" by simp
  have "map_option blob (fst (await ?st1 (length (promises st)))) = getAssetObjPNG E obj"
    using await_value[OF l] by (simp add: promisedBytes_def)
  then show ?thesis using fresh(1,4) unfolding eq by (simp add: imageBytes_def)
qed

text \<open>
  Claim C4, refuted as stated. The loop of \<^verbatim>\<open>exportAssets\<close> takes an image from the cache
  only when its entry is fulfilled with a result. After a call of \<^verbatim>\<open>loadImage\<close> for the
  sprite \<open>md5-3_2\<close> of the test bundle, and before the conversion completes, the entry
  is pending; \<^verbatim>\<open>exportAssets\<close> for the same sprite then calls \<^verbatim>\<open>getImageBitmap\<close> again and
  hands the bitmap to the conversion pool. The decoding routine has run twice for the
  key, and two conversions of it are in flight.
\<close>

theorem exportAssets_decodes_pending_image:
  "promises (run stubExternals stubLoaded [CallLoadImage ''md5-3'' 2, CallExportAssets stubParams])
     = [Pending (Some [137, 1, 2, 3])]
   \<and> decodeCalls (run stubExternals stubLoaded [CallLoadImage ''md5-3'' 2, CallExportAssets stubParams])
     = [''md5-3_2'']
   \<and> exportDecodes (run stubExternals stubLoaded [CallLoadImage ''md5-3'' 2, CallExportAssets stubParams])
     = [''md5-3_2'']
   \<and> imgBitmaps (fst (exportPrepare (run stubExternals stubLoaded [CallLoadImage ''md5-3'' 2]) stubParams))
     = [(''md5-3_2'', [1, 2, 3])]"
  by (intro conjI; code_simp)

text \<open>
  Claim C4, amended: the image cache guards the decodes that \<^verbatim>\<open>loadImage\<close> starts, not
  those of \<^verbatim>\<open>exportAssets\<close>. In every run of interleaved calls (of \<^verbatim>\<open>loadImage\<close>, of
  \<^verbatim>\<open>loadFile\<close> in its two parts and of \<^verbatim>\<open>exportAssets\<close>, and completions of conversions)
  that does not clear the cache, and for every key: \<^verbatim>\<open>loadImage\<close> runs the decoding
  routine once more exactly when the run publishes an image-cache entry for a key that
  had none, and not at all otherwise; an entry, once published, stays; every call of
  \<^verbatim>\<open>loadImage\<close> for the key that returns a promise returns the published one; the bytes
  a promise delivers are those it was created with, and a fulfilled promise keeps its
  value. A call that starts a decode publishes the entry while the promise is still
  pending. \<^verbatim>\<open>exportAssets\<close> leaves the cache, the promises and the decodes of
  \<^verbatim>\<open>loadImage\<close> as they are, and runs the decoding routine itself once for every selected
  image from which the cache gives no blob: an image whose entry is missing, pending, or
  fulfilled without a result.
\<close>

theorem loadImage_single_flight:
  "count_list (decodeCalls (run E st evs)) k =
     count_list (decodeCalls st) k
       + (if imageMap st k = None \<and> imageMap (run E st evs) k \<noteq> None then 1 else 0)
   \<and> (\<forall>h. imageMap st k = Some h \<longrightarrow> imageMap (run E st evs) k = Some h)
   \<and> (\<forall>h h'. (k, h) \<in> set (returned E st evs) \<and> (k, h') \<in> set (returned E st evs)
         \<longrightarrow> h = h' \<and> imageMap (run E st evs) k = Some h)
   \<and> (\<forall>j < length (promises st).
         j < length (promises (run E st evs))
         \<and> promisedBytes (promises (run E st evs) ! j) = promisedBytes (promises st ! j)
         \<and> (\<forall>v. promises st ! j = Fulfilled v \<longrightarrow> promises (run E st evs) ! j = Fulfilled v))
   \<and> (\<forall>fileId pathId h st'.
         imageMap st (getAssetKey fileId pathId) = None
         \<and> loadImage E st fileId pathId = (Some h, st')
         \<longrightarrow> imageMap st' (getAssetKey fileId pathId) = Some h
             \<and> h < length (promises st') \<and> (\<exists>b. promises st' ! h = Pending b)
             \<and> decodeCalls st' = decodeCalls st @ [getAssetKey fileId pathId])
   \<and> (\<forall>params.
         imageMap (snd (exportPrepare st params)) = imageMap st
         \<and> promises (snd (exportPrepare st params)) = promises st
         \<and> decodeCalls (snd (exportPrepare st params)) = decodeCalls st
         \<and> exportDecodes (snd (exportPrepare st params)) =
               exportDecodes st
               @ map entry_key
                   (filter (\<lambda>e. cachedBlob st (entry_key e) = None)
                      (filter (\<lambda>e. isImageAssetObj (entry_obj e)) (objValues st params))))"
proof (intro conjI allI impI)
  show "count_list (decodeCalls (run E st evs)) k =
     count_list (decodeCalls st) k
       + (if imageMap st k = None \<and> imageMap (run E st evs) k \<noteq> None then 1 else 0)"
    by (rule run_decode_count)
next
  fix h assume "imageMap st k = Some h"
  then show "imageMap (run E st evs) k = Some h" by (rule run_imageMap_mono)
next
  fix h h' assume a: "(k, h) \<in> set (returned E st evs) \<and> (k, h') \<in> set (returned E st evs)"
  then have "imageMap (run E st evs) k = Some h" "imageMap (run E st evs) k = Some h'"
    using returned_published by blast+
  then show "h = h'" by simp
next
  fix h h' assume a: "(k, h) \<in> set (returned E st evs) \<and> (k, h') \<in> set (returned E st evs)"
  then show "imageMap (run E st evs) k = Some h" using returned_published by blast
next
  fix j assume j: "j < length (promises st)"
  from run_promises[OF j] show "j < length (promises (run E st evs))" by blast
  from run_promises[OF j] show
    "promisedBytes (promises (run E st evs) ! j) = promisedBytes (promises st ! j)" by blast
  fix v assume "promises st ! j = Fulfilled v"
  with run_promises[OF j, of E evs v] show "promises (run E st evs) ! j = Fulfilled v" by blast
next
  fix fileId pathId h st'
  assume a: "imageMap st (getAssetKey fileId pathId) = None
         \<and> loadImage E st fileId pathId = (Some h, st')"
  then have r: "h = length (promises st)
      \<and> (\<exists>obj. st' = st\<lparr>promises := promises st @ [Pending (getAssetObjPNG E obj)],
               decodeCalls := decodeCalls st @ [getAssetKey fileId pathId],
               imageMap := (imageMap st)(getAssetKey fileId pathId \<mapsto> length (promises st))\<rparr>)"
    by (cases rule: loadImage_cases[of st fileId pathId E]) auto
  from r show "imageMap st' (getAssetKey fileId pathId) = Some h" by auto
  from r show "h < length (promises st')" by auto
  from r show "\<exists>b. promises st' ! h = Pending b" by auto
  from r show "decodeCalls st' = decodeCalls st @ [getAssetKey fileId pathId]" by auto
next
  fix params
  show "imageMap (snd (exportPrepare st params)) = imageMap st"
    "promises (snd (exportPrepare st params)) = promises st"
    "decodeCalls (snd (exportPrepare st params)) = decodeCalls st"
    by (simp_all add: exportPrepare_frame)
  show "exportDecodes (snd (exportPrepare st params)) =
               exportDecodes st
               @ map entry_key
                   (filter (\<lambda>e. cachedBlob st (entry_key e) = None)
                      (filter (\<lambda>e. isImageAssetObj (entry_obj e)) (objValues st params)))"
    by (simp add: exportPrepare_state)
qed

lemma stub_run:
  "decodeCalls (run stubExternals stubLoaded stubEvents) = [''md5-3_2'']"
  "promises (run stubExternals stubLoaded stubEvents)
     = [Fulfilled (Some \<lparr>blob = [137, 1, 2, 3], url = ''blob:0''\<rparr>)]"
  "imageMap (run stubExternals stubLoaded stubEvents) ''md5-3_2'' = Some 0"
  "returned stubExternals stubLoaded stubEvents = [(''md5-3_2'', 0), (''md5-3_2'', 0), (''md5-3_2'', 0)]"
  "imageMap stubLoaded ''md5-3_2'' = None"
  "decodeCalls stubLoaded = []"
  "exportDecodes stubLoaded = []"
  "map entry_key
     (filter (\<lambda>e. cachedBlob stubLoaded (entry_key e) = None)
        (filter (\<lambda>e. isImageAssetObj (entry_obj e)) (objValues stubLoaded stubParams)))
     = [''md5-3_2'']"
  by code_simp+

theorem loadImage_single_flight_witness:
  "imageMap stubLoaded ''md5-3_2'' = None
   \<and> imageMap (run stubExternals stubLoaded stubEvents) ''md5-3_2'' = Some 0
   \<and> count_list (decodeCalls (run stubExternals stubLoaded stubEvents)) ''md5-3_2'' = 1
   \<and> returned stubExternals stubLoaded stubEvents
       = [(''md5-3_2'', 0), (''md5-3_2'', 0), (''md5-3_2'', 0)]
   \<and> exportDecodes (snd (exportPrepare stubLoaded stubParams)) = [''md5-3_2'']"
proof -
  note t = loadImage_single_flight[of stubExternals stubLoaded stubEvents "''md5-3_2''"]
  from t have "exportDecodes (snd (exportPrepare stubLoaded stubParams)) =
      exportDecodes stubLoaded
      @ map entry_key
          (filter (\<lambda>e. cachedBlob stubLoaded (entry_key e) = None)
             (filter (\<lambda>e. isImageAssetObj (entry_obj e)) (objValues stubLoaded stubParams)))"
    by blast
  then have e: "exportDecodes (snd (exportPrepare stubLoaded stubParams)) = [''md5-3_2'']"
    unfolding stub_run(7,8) by simp
  from t have "imageMap stubLoaded ''md5-3_2'' = None
   \<and> imageMap (run stubExternals stubLoaded stubEvents) ''md5-3_2'' = Some 0
   \<and> count_list (decodeCalls (run stubExternals stubLoaded stubEvents)) ''md5-3_2'' = 1
   \<and> returned stubExternals stubLoaded stubEvents
       = [(''md5-3_2'', 0), (''md5-3_2'', 0), (''md5-3_2'', 0)]"
    by (simp add: stub_run(1-6))
  with e show ?thesis by simp
qed

lemma getImageUrl_cached_failure:
  assumes "imageMap st (getAssetKey fileId pathId) = Some h"
    and "h < length (promises st)" and "promises st ! h = Fulfilled None"
  shows "getImageUrl E st fileId pathId = (None, st)"
  using assms by (simp add: getImageUrl_def loadImage_cached await_def Let_def settle_def)

text \<open>
  Claim C6. When the decode of an image object that is not yet cached produces no bitmap
  or no encoded buffer, \<^verbatim>\<open>loadImage\<close> still publishes a promise for the key; that
  promise is fulfilled with \<^verbatim>\<open>undefined\<close>, \<^verbatim>\<open>getImageUrl\<close> returns \<^verbatim>\<open>undefined\<close> and the
  store writes \<^verbatim>\<open>null\<close> into the data field. After any further run that does not clear
  the cache, \<^verbatim>\<open>getImageUrl\<close> for the key returns \<^verbatim>\<open>undefined\<close> again, leaves the state
  as it is, and \<^verbatim>\<open>loadImage\<close> has run the decoding routine for the key once, not more.
\<close>

theorem decode_failure_is_cached:
  assumes nocache: "imageMap st (getAssetKey fileId pathId) = None"
    and obj: "getAssetObj st fileId pathId = Some obj"
    and img: "obj_type obj = Sprite \<or> obj_type obj = Texture2D"
    and fail: "obj_bitmap obj = None \<or> (\<exists>bitmap. obj_bitmap obj = Some bitmap \<and> addTasks E bitmap = None)"
  shows "\<exists>h st1. loadImage E st fileId pathId = (Some h, st1)
           \<and> imageMap st1 (getAssetKey fileId pathId) = Some h
           \<and> promises st1 ! h = Pending None
           \<and> promises (settle st1 h) ! h = Fulfilled None
           \<and> isFulfilled (settle st1 h) h
           \<and> getImageUrl E st fileId pathId = (None, settle st1 h)
           \<and> storeImageData (fst (getImageUrl E st fileId pathId)) = Null
           \<and> (\<forall>evs. getImageUrl E (run E (settle st1 h) evs) fileId pathId
                       = (None, run E (settle st1 h) evs)
                 \<and> count_list (decodeCalls (run E (settle st1 h) evs)) (getAssetKey fileId pathId)
                       = count_list (decodeCalls st) (getAssetKey fileId pathId) + 1)"
proof -
  let ?key = "getAssetKey fileId pathId"
  let ?h = "length (promises st)"
  let ?st1 = "st\<lparr>promises := promises st @ [Pending (getAssetObjPNG E obj)],
               decodeCalls := decodeCalls st @ [?key],
               imageMap := (imageMap st)(?key \<mapsto> ?h)\<rparr>"
  have png: "getAssetObjPNG E obj = None"
    using fail by (auto simp: getAssetObjPNG_def)
  have li: "loadImage E st fileId pathId = (Some ?h, ?st1)"
    by (rule loadImage_fresh[OF nocache obj img])
  have pub: "imageMap ?st1 ?key = Some ?h" by simp
  have pend: "promises ?st1 ! ?h = Pending None" by (simp add: png)
  have hl: "?h < length (promises ?st1)" by simp
  let ?st2 = "settle ?st1 ?h"
  have ful: "promises ?st2 ! ?h = Fulfilled None"
    using settle_pending[OF hl pend] by auto
  have isf: "isFulfilled ?st2 ?h"
    using ful hl by (simp add: isFulfilled_def settle_length)
  have aw: "await ?st1 ?h = (None, ?st2)"
    using ful hl by (simp add: await_def Let_def settle_length)
  have gu: "getImageUrl E st fileId pathId = (None, ?st2)"
    unfolding getImageUrl_def li using aw by simp
  have pub2: "imageMap ?st2 ?key = Some ?h" by (simp add: settle_imageMap)
  have hl2: "?h < length (promises ?st2)" by (simp add: settle_length)
  have later: "getImageUrl E (run E ?st2 evs) fileId pathId = (None, run E ?st2 evs)
      \<and> count_list (decodeCalls (run E ?st2 evs)) ?key = count_list (decodeCalls st) ?key + 1" for evs
  proof -
    have m: "imageMap (run E ?st2 evs) ?key = Some ?h" by (rule run_imageMap_mono[OF pub2])
    have p: "?h < length (promises (run E ?st2 evs))"
      "promises (run E ?st2 evs) ! ?h = Fulfilled None"
      using run_promises[OF hl2, of E evs None] ful by blast+
    have c: "count_list (decodeCalls (run E ?st2 evs)) ?key = count_list (decodeCalls ?st2) ?key"
      using run_decode_count[of E ?st2 evs ?key] pub2 by simp
    have "count_list (decodeCalls ?st2) ?key = count_list (decodeCalls st) ?key + 1"
      by (simp add: settle_decodeCalls)
    with c getImageUrl_cached_failure[OF m p] show ?thesis by simp
  qed
  show ?thesis
    using li pub pend ful isf gu later by (auto simp: storeImageData_def)
qed

lemma stub_sprite_broken:
  "imageMap stubLoaded (getAssetKey ''md5-3'' 3) = None"
  "getAssetObj stubLoaded ''md5-3'' 3 = Some stubBroken"
  "obj_type stubBroken = Sprite"
  "obj_bitmap stubBroken = None"
  "decodeCalls stubLoaded = []"
  by code_simp+

theorem decode_failure_is_cached_witness:
  "imageMap stubLoaded (getAssetKey ''md5-3'' 3) = None
   \<and> getAssetObj stubLoaded ''md5-3'' 3 = Some stubBroken
   \<and> obj_type stubBroken = Sprite
   \<and> obj_bitmap stubBroken = None
   \<and> fst (getImageUrl stubExternals stubLoaded ''md5-3'' 3) = None
   \<and> storeImageData (fst (getImageUrl stubExternals stubLoaded ''md5-3'' 3)) = Null
   \<and> fst (getImageUrl stubExternals
            (run stubExternals (snd (getImageUrl stubExternals stubLoaded ''md5-3'' 3))
               [CallLoadImage ''md5-3'' 3]) ''md5-3'' 3) = None
   \<and> count_list (decodeCalls
            (run stubExternals (snd (getImageUrl stubExternals stubLoaded ''md5-3'' 3))
               [CallLoadImage ''md5-3'' 3])) (getAssetKey ''md5-3'' 3) = 1"
proof -
  note s = stub_sprite_broken
  have img: "obj_type stubBroken = Sprite \<or> obj_type stubBroken = Texture2D"
    using s(3) by simp
  have fail: "obj_bitmap stubBroken = None
      \<or> (\<exists>bitmap. obj_bitmap stubBroken = Some bitmap \<and> addTasks stubExternals bitmap = None)"
    using s(4) by simp
  from decode_failure_is_cached[OF s(1) s(2) img fail]
  obtain h st1 where
    g: "getImageUrl stubExternals stubLoaded ''md5-3'' 3 = (None, settle st1 h)"
    and n: "storeImageData (fst (getImageUrl stubExternals stubLoaded ''md5-3'' 3)) = Null"
    and l: "\<forall>evs. getImageUrl stubExternals (run stubExternals (settle st1 h) evs) ''md5-3'' 3
                       = (None, run stubExternals (settle st1 h) evs)
                 \<and> count_list (decodeCalls (run stubExternals (settle st1 h) evs)) (getAssetKey ''md5-3'' 3)
                       = count_list (decodeCalls stubLoaded) (getAssetKey ''md5-3'' 3) + 1"
    by blast
  from l[rule_format, of "[CallLoadImage ''md5-3'' 3]"] g n s show ?thesis by simp
qed

lemma exportImage_bytes:
  assumes "getAssetObj st fileId pathId = Some obj"
    and "obj_type obj = Sprite \<or> obj_type obj = Texture2D"
  shows "fst (exportImage E st fileId pathId fileName) =
           map_option (\<lambda>buffer. \<lparr>exp_name = fileName @ ''.png'', exp_type = ''image/png'',
                                   exp_data = buffer\<rparr>)
             (imageBytes E st (getAssetKey fileId pathId) obj)"
proof -
  from loadImage_await_bytes[OF assms, of E] obtain h st1 where
    l: "loadImage E st fileId pathId = (Some h, st1)"
    and b: "map_option blob (fst (await st1 h)) = imageBytes E st (getAssetKey fileId pathId) obj"
    by blast
  show ?thesis
    unfolding exportImage_def l b[symmetric]
    by (cases "await st1 h") (auto split: option.split)
qed

text \<open>
  Claim C5, refuted as stated: the object \<open>md5-3_3\<close> of the test bundle is a sprite whose
  decode produces no bitmap, and \<^verbatim>\<open>exportAsset\<close> returns \<^verbatim>\<open>undefined\<close> for it.
\<close>

theorem exportAsset_sprite_absent:
  "getAssetObj stubLoaded ''md5-3'' 3 = Some stubBroken
   \<and> obj_type stubBroken = Sprite
   \<and> fst (exportAsset stubExternals stubLoaded ''md5-3'' 3) = None"
  by code_simp

text \<open>
  Claim C5, amended. \<^verbatim>\<open>exportAsset\<close> returns \<^verbatim>\<open>undefined\<close> when the object is missing or
  its type is not one of \<^verbatim>\<open>TextAsset\<close>, \<^verbatim>\<open>Sprite\<close>, \<^verbatim>\<open>Texture2D\<close> (so for every
  \<^verbatim>\<open>SpriteAtlas\<close>). For a text asset it returns the payload bytes of the object, the
  bytes whose decoding is the displayed text, under the legal name with the extension
  \<^verbatim>\<open>.txt\<close>. For a sprite or a texture it returns the encoded image bytes under the legal
  name with the extension \<^verbatim>\<open>.png\<close> when the image cache holds or obtains an encoded
  buffer for the key, and \<^verbatim>\<open>undefined\<close> when it does not.
\<close>

theorem exportAsset_by_type:
  "(getAssetObj st fileId pathId = None \<longrightarrow> exportAsset E st fileId pathId = (None, st))
   \<and> (\<forall>obj. getAssetObj st fileId pathId = Some obj \<longrightarrow>
         (obj_type obj \<noteq> TextAsset \<and> obj_type obj \<noteq> Sprite \<and> obj_type obj \<noteq> Texture2D
            \<longrightarrow> exportAsset E st fileId pathId = (None, st))
       \<and> (obj_type obj = SpriteAtlas \<longrightarrow> exportAsset E st fileId pathId = (None, st))
       \<and> (obj_type obj = TextAsset \<longrightarrow>
             exportAsset E st fileId pathId =
               (Some \<lparr>exp_name = getLegalFileName (obj_name obj) @ ''.txt'',
                      exp_type = ''text/plain'', exp_data = obj_data obj\<rparr>, st)
             \<and> getAssetData E st obj (getAssetKey fileId pathId) = Str (textDecode E (obj_data obj)))
       \<and> (obj_type obj = Sprite \<or> obj_type obj = Texture2D \<longrightarrow>
             fst (exportAsset E st fileId pathId) =
               map_option (\<lambda>buffer. \<lparr>exp_name = getLegalFileName (obj_name obj) @ ''.png'',
                                       exp_type = ''image/png'', exp_data = buffer\<rparr>)
                 (imageBytes E st (getAssetKey fileId pathId) obj)))"
proof (intro conjI allI impI)
  assume "getAssetObj st fileId pathId = None"
  then show "exportAsset E st fileId pathId = (None, st)" by (simp add: exportAsset_def)
next
  fix obj assume o: "getAssetObj st fileId pathId = Some obj"
  { assume "obj_type obj \<noteq> TextAsset \<and> obj_type obj \<noteq> Sprite \<and> obj_type obj \<noteq> Texture2D"
    then show "exportAsset E st fileId pathId = (None, st)"
      using o by (simp add: exportAsset_def canExportAssetType_def) }
  { assume "obj_type obj = SpriteAtlas"
    then show "exportAsset E st fileId pathId = (None, st)"
      using o by (simp add: exportAsset_def canExportAssetType_def) }
  { assume t: "obj_type obj = TextAsset"
    then show "exportAsset E st fileId pathId =
               (Some \<lparr>exp_name = getLegalFileName (obj_name obj) @ ''.txt'',
                      exp_type = ''text/plain'', exp_data = obj_data obj\<rparr>, st)"
      using o by (simp add: exportAsset_def canExportAssetType_def Let_def)
    from t show "getAssetData E st obj (getAssetKey fileId pathId) = Str (textDecode E (obj_data obj))"
      by (simp add: getAssetData_def Let_def) }
  { assume i: "obj_type obj = Sprite \<or> obj_type obj = Texture2D"
    then have "exportAsset E st fileId pathId
        = exportImage E st fileId pathId (getLegalFileName (obj_name obj))"
      using o by (auto simp: exportAsset_def canExportAssetType_def Let_def)
    then show "fst (exportAsset E st fileId pathId) =
               map_option (\<lambda>buffer. \<lparr>exp_name = getLegalFileName (obj_name obj) @ ''.png'',
                                       exp_type = ''image/png'', exp_data = buffer\<rparr>)
                 (imageBytes E st (getAssetKey fileId pathId) obj)"
      using exportImage_bytes[OF o i] by simp }
qed

lemma stub_objs:
  "getAssetObj stubLoaded ''md5-3'' 1 = Some stubText"
  "getAssetObj stubLoaded ''md5-3'' 2 = Some stubSprite"
  "getAssetObj stubLoaded ''md5-3'' 4 = Some stubAtlas"
  "getAssetObj stubLoaded ''md5-3'' 9 = None"
  "obj_type stubText = TextAsset"
  "obj_type stubSprite = Sprite"
  "obj_type stubAtlas = SpriteAtlas"
  "imageBytes stubExternals stubLoaded (getAssetKey ''md5-3'' 2) stubSprite = Some [137, 1, 2, 3]"
  "getLegalFileName (obj_name stubText) = ''hello''"
  "getLegalFileName (obj_name stubSprite) = ''icona''"
  "obj_data stubText = [104, 105]"
  by code_simp+

theorem exportAsset_by_type_witness:
  "getAssetObj stubLoaded ''md5-3'' 9 = None
   \<and> fst (exportAsset stubExternals stubLoaded ''md5-3'' 9) = None
   \<and> getAssetObj stubLoaded ''md5-3'' 4 = Some stubAtlas
   \<and> obj_type stubAtlas = SpriteAtlas
   \<and> fst (exportAsset stubExternals stubLoaded ''md5-3'' 4) = None
   \<and> getAssetObj stubLoaded ''md5-3'' 1 = Some stubText
   \<and> obj_type stubText = TextAsset
   \<and> fst (exportAsset stubExternals stubLoaded ''md5-3'' 1)
       = Some \<lparr>exp_name = ''hello.txt'', exp_type = ''text/plain'', exp_data = [104, 105]\<rparr>
   \<and> getAssetObj stubLoaded ''md5-3'' 2 = Some stubSprite
   \<and> obj_type stubSprite = Sprite
   \<and> fst (exportAsset stubExternals stubLoaded ''md5-3'' 2)
       = Some \<lparr>exp_name = ''icona.png'', exp_type = ''image/png'', exp_data = [137, 1, 2, 3]\<rparr>"
  using exportAsset_by_type[of stubLoaded "''md5-3''" 9 stubExternals]
    exportAsset_by_type[of stubLoaded "''md5-3''" 4 stubExternals]
    exportAsset_by_type[of stubLoaded "''md5-3''" 1 stubExternals]
    exportAsset_by_type[of stubLoaded "''md5-3''" 2 stubExternals]
  by (simp add: stub_objs)

section \<open>Properties of the bundle cache\<close>

lemma loadFile_cached:
  assumes "bundleMap st (calcMd5 E (file_bytes f)) = Some b"
  shows "loadFile E st f options =
           (Inr (map (toAssetInfo E st b (calcMd5 E (file_bytes f)) (file_name f))
                   (filter (\<lambda>obj. obj_type obj \<in> set showAssetType) (objects b))), st)"
  using assms by (simp add: loadFile_def loadFileBegin_def loadFileEnd_def Let_def)

lemma loadFile_parsed:
  assumes "bundleMap st (calcMd5 E (file_bytes f)) = None"
    and "loadAssetBundle E (file_bytes f) options = Inr b"
  shows "loadFile E st f options =
           (Inr (map (toAssetInfo E
                        (st\<lparr>parserCalls := parserCalls st @ [file_bytes f],
                            bundleMap := (bundleMap st)(calcMd5 E (file_bytes f) \<mapsto> b)\<rparr>)
                        b (calcMd5 E (file_bytes f)) (file_name f))
                   (filter (\<lambda>obj. obj_type obj \<in> set showAssetType) (objects b))),
            st\<lparr>parserCalls := parserCalls st @ [file_bytes f],
               bundleMap := (bundleMap st)(calcMd5 E (file_bytes f) \<mapsto> b)\<rparr>)"
  using assms by (simp add: loadFile_def loadFileBegin_def loadFileEnd_def Let_def)

lemma loadFile_rejected:
  assumes "bundleMap st (calcMd5 E (file_bytes f)) = None"
    and "loadAssetBundle E (file_bytes f) options = Inl err"
  shows "loadFile E st f options = (Inl err, st\<lparr>parserCalls := parserCalls st @ [file_bytes f]\<rparr>)"
  using assms by (simp add: loadFile_def loadFileBegin_def loadFileEnd_def Let_def)

text \<open>The three ways a call of \<^verbatim>\<open>loadFile\<close> can go.\<close>

lemma loadFile_cases:
  obtains (cached) b where "bundleMap st (calcMd5 E (file_bytes f)) = Some b"
      "loadFile E st f options =
           (Inr (map (toAssetInfo E st b (calcMd5 E (file_bytes f)) (file_name f))
                   (filter (\<lambda>obj. obj_type obj \<in> set showAssetType) (objects b))), st)"
  | (parsed) b where "bundleMap st (calcMd5 E (file_bytes f)) = None"
      "loadAssetBundle E (file_bytes f) options = Inr b"
      "loadFile E st f options =
           (Inr (map (toAssetInfo E
                        (st\<lparr>parserCalls := parserCalls st @ [file_bytes f],
                            bundleMap := (bundleMap st)(calcMd5 E (file_bytes f) \<mapsto> b)\<rparr>)
                        b (calcMd5 E (file_bytes f)) (file_name f))
                   (filter (\<lambda>obj. obj_type obj \<in> set showAssetType) (objects b))),
            st\<lparr>parserCalls := parserCalls st @ [file_bytes f],
               bundleMap := (bundleMap st)(calcMd5 E (file_bytes f) \<mapsto> b)\<rparr>)"
  | (rejected) err where "bundleMap st (calcMd5 E (file_bytes f)) = None"
      "loadAssetBundle E (file_bytes f) options = Inl err"
      "loadFile E st f options = (Inl err, st\<lparr>parserCalls := parserCalls st @ [file_bytes f]\<rparr>)"
proof (cases "bundleMap st (calcMd5 E (file_bytes f))")
  case (Some b)
  then show ?thesis using cached loadFile_cached by blast
next
  case None
  show ?thesis
  proof (cases "loadAssetBundle E (file_bytes f) options")
    case (Inl err)
    then show ?thesis using rejected None loadFile_rejected by blast
  next
    case (Inr b)
    then show ?thesis using parsed None loadFile_parsed by blast
  qed
qed



















section \<open>Properties of the batch loader\<close>

lemma fileOutcomes_length: "length (fileOutcomes E options st fs) = length fs"
  by (induction fs arbitrary: st) simp_all

lemma fileOutcomes_names: "map fst (fileOutcomes E options st fs) = map file_name fs"
  by (induction fs arbitrary: st) simp_all

lemma map_filter_Cons_Some: "f x = Some y \<Longrightarrow> List.map_filter f (x # xs) = y # List.map_filter f xs"
  by (simp add: List.map_filter_def)

lemma map_filter_Cons_None: "f x = None \<Longrightarrow> List.map_filter f (x # xs) = List.map_filter f xs"
  by (simp add: List.map_filter_def)

lemma loopAdds_Nil: "loopAdds i n acc [] acc"
  by (simp add: loopAdds_def List.map_filter_def)

lemma upt_length_Cons: "[0 ..< length (x # xs)] = 0 # map Suc [0 ..< length xs]"
  by (simp add: upt_conv_Cons map_Suc_upt del: upt_Suc)

lemma loopAdds_Inl:
  assumes a1: "acc1 = acc\<lparr>progressCalls := progressCalls acc @ [(name, i, n, length (infos acc))]\<rparr>"
    and l: "loopAdds (i + 1) n (acc1\<lparr>errors := errors acc1 @ [(name, err)]\<rparr>) outs r"
  shows "loopAdds i n acc ((name, Inl err) # outs) r"
  using l unfolding loopAdds_def upt_length_Cons a1
  by (simp add: errorOf_def infosOf_def isSuccess_def map_filter_Cons_Some comp_def)

lemma loopAdds_Inr:
  assumes a1: "acc1 = acc\<lparr>progressCalls := progressCalls acc @ [(name, i, n, length (infos acc))]\<rparr>"
    and l: "loopAdds (i + 1) n
             (if length result \<noteq> 0
              then acc1\<lparr>successNum := successNum acc1 + 1, infos := infos acc1 @ result\<rparr>
              else acc1) outs r"
  shows "loopAdds i n acc ((name, Inr result) # outs) r"
proof (cases "result = []")
  case True
  with l have "loopAdds (i + 1) n acc1 outs r" by simp
  then show ?thesis unfolding loopAdds_def upt_length_Cons a1 True
    by (simp add: errorOf_def infosOf_def isSuccess_def map_filter_Cons_None comp_def)
next
  case False
  with l have "loopAdds (i + 1) n
      (acc1\<lparr>successNum := successNum acc1 + 1, infos := infos acc1 @ result\<rparr>) outs r" by simp
  then show ?thesis using False unfolding loopAdds_def upt_length_Cons a1
    by (simp add: errorOf_def infosOf_def isSuccess_def map_filter_Cons_None comp_def)
qed

lemma loadFilesLoop_outcomes:
  "loopAdds i (length files) acc (fileOutcomes E options st (drop i files))
     (fst (loadFilesLoop E options files i acc st))"
proof (induction E options files i acc st rule: loadFilesLoop.induct)
  case (1 E options files i acc st)
  show ?case
  proof (cases "i < length files")
    case False
    then have "loadFilesLoop E options files i acc st = (acc, st)"
      by (subst loadFilesLoop.simps) simp
    with False show ?thesis by (simp add: loopAdds_Nil)
  next
    case True
    let ?file = "files ! i"
    let ?acc1 = "acc\<lparr>progressCalls := progressCalls acc @
                          [(file_name ?file, i, length files, length (infos acc))]\<rparr>"
    obtain out st' where t: "(out, st') = tryLoadFile E st ?file options"
      by (metis prod.collapse)
    have d: "drop i files = ?file # drop (i + 1) files"
      using True by (simp add: Cons_nth_drop_Suc)
    have fo: "fileOutcomes E options st (drop i files)
                = (file_name ?file, out) # fileOutcomes E options st' (drop (i + 1) files)"
      unfolding d using t[symmetric] by simp
    show ?thesis
    proof (cases out)
      case (Inl err)
      let ?acc2 = "?acc1\<lparr>errors := errors ?acc1 @ [(file_name ?file, err)]\<rparr>"
      have step: "loadFilesLoop E options files i acc st = loadFilesLoop E options files (i + 1) ?acc2 st'"
        using True t[symmetric] Inl by (subst loadFilesLoop.simps) (simp add: Let_def)
      have IH: "loopAdds (i + 1) (length files) ?acc2
                  (fileOutcomes E options st' (drop (i + 1) files))
                  (fst (loadFilesLoop E options files (i + 1) ?acc2 st'))"
        by (rule "1.IH"(1)[OF True refl refl t Inl])
      show ?thesis unfolding step fo Inl
        by (rule loopAdds_Inl[OF refl IH])
    next
      case (Inr result)
      let ?acc2 = "if length result \<noteq> 0
                   then ?acc1\<lparr>successNum := successNum ?acc1 + 1, infos := infos ?acc1 @ result\<rparr>
                   else ?acc1"
      have step: "loadFilesLoop E options files i acc st = loadFilesLoop E options files (i + 1) ?acc2 st'"
        using True t[symmetric] Inr by (subst loadFilesLoop.simps) (simp add: Let_def)
      have IH: "loopAdds (i + 1) (length files) ?acc2
                  (fileOutcomes E options st' (drop (i + 1) files))
                  (fst (loadFilesLoop E options files (i + 1) ?acc2 st'))"
        by (rule "1.IH"(2)[OF True refl refl t Inr])
      show ?thesis unfolding step fo Inr
        by (rule loopAdds_Inr[OF refl IH])
    qed
  qed
qed

lemma loadFile_success:
  assumes "fst (loadFile E st f options) = Inr result"
  shows "\<exists>b. bundleMap (snd (loadFile E st f options)) (calcMd5 E (file_bytes f)) = Some b
           \<and> (result = [] \<longleftrightarrow>
                (\<forall>obj \<in> set (objects b). obj_type obj \<notin> {TextAsset, Sprite, SpriteAtlas, Texture2D}))"
proof (cases rule: loadFile_cases[of st E f options])
  case (cached b)
  then show ?thesis using assms
    by (auto simp: showAssetType_def filter_empty_conv)
next
  case (parsed b)
  then show ?thesis using assms
    by (auto simp: showAssetType_def filter_empty_conv)
next
  case (rejected err)
  then show ?thesis using assms by simp
qed

lemma tryLoadFile_success:
  assumes "fst (tryLoadFile E st f options) = Inr result"
  shows "\<exists>bytes' b.
           tryLoadFile E st f options = loadFile E st (f\<lparr>file_bytes := bytes'\<rparr>) options
           \<and> bundleMap (snd (tryLoadFile E st f options)) (calcMd5 E bytes') = Some b
           \<and> (result = [] \<longleftrightarrow>
                (\<forall>obj \<in> set (objects b). obj_type obj \<notin> {TextAsset, Sprite, SpriteAtlas, Texture2D}))"
proof -
  obtain bytes' where t: "tryLoadFile E st f options = loadFile E st (f\<lparr>file_bytes := bytes'\<rparr>) options"
  proof (cases "envIndex options = 2 \<and> endsWith (file_name f) ''.ab''")
    case False
    then have "tryLoadFile E st f options = loadFile E st (f\<lparr>file_bytes := file_bytes f\<rparr>) options"
      by (auto simp: tryLoadFile_def)
    then show ?thesis using that by blast
  next
    case True
    show ?thesis
    proof (cases "decryptAesCtrPbkdf1 (subtle E) (file_bytes f) ''System.Byte[]''
              (textEncode (removeAbSuffix (file_name f))) 32 100")
      case (Inl err)
      with True have "fst (tryLoadFile E st f options) = Inl err"
        by (simp add: tryLoadFile_def Let_def)
      with assms show ?thesis by simp
    next
      case (Inr decrypted)
      with True have "tryLoadFile E st f options = loadFile E st (f\<lparr>file_bytes := decrypted\<rparr>) options"
        by (simp add: tryLoadFile_def Let_def)
      then show ?thesis using that by blast
    qed
  qed
  from assms loadFile_success[of E st "f\<lparr>file_bytes := bytes'\<rparr>" options result]
  obtain b where b: "bundleMap (snd (tryLoadFile E st f options)) (calcMd5 E bytes') = Some b"
      "result = [] \<longleftrightarrow>
                (\<forall>obj \<in> set (objects b). obj_type obj \<notin> {TextAsset, Sprite, SpriteAtlas, Texture2D})"
    unfolding t by auto
  show ?thesis by (rule exI[of _ bytes'], rule exI[of _ b]) (use t b in simp)
qed

lemma errorOf_member:
  "(name, err) \<in> set (List.map_filter errorOf outs) \<longleftrightarrow> (name, Inl err) \<in> set outs"
proof (induction outs)
  case Nil
  then show ?case by (simp add: List.map_filter_def)
next
  case (Cons out outs)
  obtain n r where o: "out = (n, r)" by (cases out)
  show ?case
  proof (cases r)
    case (Inl e)
    then have "errorOf out = Some (n, e)" by (simp add: o errorOf_def)
    from map_filter_Cons_Some[where f = errorOf and x = out, OF this] Cons show ?thesis by (auto simp: o Inl)
  next
    case (Inr res)
    then have "errorOf out = None" by (simp add: o errorOf_def)
    from map_filter_Cons_None[where f = errorOf and x = out, OF this] Cons show ?thesis by (auto simp: o Inr)
  qed
qed

lemma loadFiles_outcomes:
  "loopAdds 0 (length files) \<lparr>errors = [], infos = [], successNum = 0, progressCalls = []\<rparr>
     (fileOutcomes E options st files) (fst (loadFiles E st files options))"
  using loadFilesLoop_outcomes[of 0 files _ E options st] by (simp add: loadFiles_def)

text \<open>
  Claim C7. \<^verbatim>\<open>loadFiles\<close> processes the files one after the other, each in the state its
  predecessor left, whether or not the predecessor failed: every file has an outcome, in
  the order of the files, and every file is reported to \<^verbatim>\<open>onProgress\<close> with its index
  and the number of assets gathered from the files before it. The \<open>errors\<close> field holds
  exactly the files whose processing threw, each with its name and its error, in order.
  \<^verbatim>\<open>loadFiles\<close> itself has no rejecting outcome: it returns the aggregate.
\<close>

theorem loadFiles_captures_failures:
  "errors (fst (loadFiles E st files options))
     = List.map_filter errorOf (fileOutcomes E options st files)
   \<and> map fst (fileOutcomes E options st files) = map file_name files
   \<and> progressCalls (fst (loadFiles E st files options))
     = map (\<lambda>j. (file_name (files ! j), j, length files,
                  length (concat (map infosOf (take j (fileOutcomes E options st files))))))
           [0 ..< length files]
   \<and> (\<forall>name err. (name, err) \<in> set (errors (fst (loadFiles E st files options)))
         \<longleftrightarrow> (name, Inl err) \<in> set (fileOutcomes E options st files))"
proof -
  let ?outs = "fileOutcomes E options st files"
  let ?r = "fst (loadFiles E st files options)"
  from loadFiles_outcomes[of files E options st]
  have e: "errors ?r = List.map_filter errorOf ?outs"
    and p: "progressCalls ?r =
       map (\<lambda>j. (fst (?outs ! j), j, length files, length (concat (map infosOf (take j ?outs)))))
           [0 ..< length ?outs]"
    by (simp_all add: loopAdds_def)
  have n: "map fst ?outs = map file_name files" by (rule fileOutcomes_names)
  have l: "length ?outs = length files" by (rule fileOutcomes_length)
  have f: "fst (?outs ! j) = file_name (files ! j)" if "j < length files" for j
    using that n l by (metis nth_map)
  have p': "progressCalls ?r =
       map (\<lambda>j. (file_name (files ! j), j, length files, length (concat (map infosOf (take j ?outs)))))
           [0 ..< length files]"
    unfolding p l using f by simp
  show ?thesis using e n p' errorOf_member by simp
qed

text \<open>
  Claim C10. \<open>successNum\<close> is the number of files whose processing returned at least one
  entry, and \<open>infos\<close> is the concatenation of the returned entries. A file that is
  processed without error and returns no entry adds nothing to \<open>successNum\<close>, to
  \<open>infos\<close> or to \<open>errors\<close>; and a file processed without error returns no entry
  exactly when its bundle, the one stored under the MD5 of the bytes that \<^verbatim>\<open>loadFile\<close>
  received, holds no object of the types \<^verbatim>\<open>TextAsset\<close>, \<^verbatim>\<open>Sprite\<close>, \<^verbatim>\<open>SpriteAtlas\<close>,
  \<^verbatim>\<open>Texture2D\<close>.
\<close>

theorem loadFiles_successNum:
  "successNum (fst (loadFiles E st files options))
     = length (filter isSuccess (fileOutcomes E options st files))
   \<and> infos (fst (loadFiles E st files options))
     = concat (map infosOf (fileOutcomes E options st files))
   \<and> errors (fst (loadFiles E st files options))
     = List.map_filter errorOf (fileOutcomes E options st files)
   \<and> (\<forall>name. \<not> isSuccess (name, Inr []) \<and> infosOf (name, Inr []) = []
         \<and> errorOf (name, Inr []) = None)
   \<and> (\<forall>f st0 result. fst (tryLoadFile E st0 f options) = Inr result \<longrightarrow>
         (\<exists>bytes' b.
            tryLoadFile E st0 f options = loadFile E st0 (f\<lparr>file_bytes := bytes'\<rparr>) options
            \<and> bundleMap (snd (tryLoadFile E st0 f options)) (calcMd5 E bytes') = Some b
            \<and> (result = [] \<longleftrightarrow>
                 (\<forall>obj \<in> set (objects b).
                    obj_type obj \<notin> {TextAsset, Sprite, SpriteAtlas, Texture2D}))))"
proof -
  from loadFiles_outcomes[of files E options st]
  have "successNum (fst (loadFiles E st files options))
     = length (filter isSuccess (fileOutcomes E options st files))"
   "infos (fst (loadFiles E st files options))
     = concat (map infosOf (fileOutcomes E options st files))"
   "errors (fst (loadFiles E st files options))
     = List.map_filter errorOf (fileOutcomes E options st files)"
    by (simp_all add: loopAdds_def)
  moreover have "\<not> isSuccess (name, Inr []) \<and> infosOf (name, Inr []) = []
         \<and> errorOf (name, Inr []) = None" for name
    by (simp add: isSuccess_def infosOf_def errorOf_def)
  ultimately show ?thesis using tryLoadFile_success by blast
qed

lemma stub_batch:
  "List.map_filter errorOf
     (fileOutcomes stubExternals stubOptions newManager [stubFileBad, stubFileMesh, stubFileA])
   = [(''c.bundle'', ''Error: unsupported bundle'')]"
  "length (filter isSuccess
     (fileOutcomes stubExternals stubOptions newManager [stubFileBad, stubFileMesh, stubFileA])) = 1"
  "map info_key (concat (map infosOf
     (fileOutcomes stubExternals stubOptions newManager [stubFileBad, stubFileMesh, stubFileA])))
   = [''md5-3_1'', ''md5-3_2'', ''md5-3_3'', ''md5-3_4'', ''md5-3_5'']"
  "map (\<lambda>j. (file_name ([stubFileBad, stubFileMesh, stubFileA] ! j), j,
                length [stubFileBad, stubFileMesh, stubFileA],
                length (concat (map infosOf (take j
                  (fileOutcomes stubExternals stubOptions newManager
                     [stubFileBad, stubFileMesh, stubFileA]))))))
       [0 ..< length [stubFileBad, stubFileMesh, stubFileA]]
   = [(''c.bundle'', 0, 3, 0), (''m.bundle'', 1, 3, 0), (''a.bundle'', 2, 3, 0)]"
  "map file_name [stubFileBad, stubFileMesh, stubFileA] = [''c.bundle'', ''m.bundle'', ''a.bundle'']"
  "fst (tryLoadFile stubExternals (snd (tryLoadFile stubExternals newManager stubFileBad stubOptions))
          stubFileMesh stubOptions) = Inr []"
  by code_simp+

theorem loadFiles_captures_failures_witness:
  "errors (fst (loadFiles stubExternals newManager [stubFileBad, stubFileMesh, stubFileA] stubOptions))
     = [(''c.bundle'', ''Error: unsupported bundle'')]
   \<and> map fst (fileOutcomes stubExternals stubOptions newManager [stubFileBad, stubFileMesh, stubFileA])
     = [''c.bundle'', ''m.bundle'', ''a.bundle'']
   \<and> progressCalls
       (fst (loadFiles stubExternals newManager [stubFileBad, stubFileMesh, stubFileA] stubOptions))
     = [(''c.bundle'', 0, 3, 0), (''m.bundle'', 1, 3, 0), (''a.bundle'', 2, 3, 0)]"
  using loadFiles_captures_failures[of stubExternals newManager
          "[stubFileBad, stubFileMesh, stubFileA]" stubOptions]
  unfolding stub_batch by blast

theorem loadFiles_successNum_witness:
  "successNum (fst (loadFiles stubExternals newManager [stubFileBad, stubFileMesh, stubFileA] stubOptions))
     = 1
   \<and> map info_key
       (infos (fst (loadFiles stubExternals newManager [stubFileBad, stubFileMesh, stubFileA] stubOptions)))
     = [''md5-3_1'', ''md5-3_2'', ''md5-3_3'', ''md5-3_4'', ''md5-3_5'']
   \<and> errors (fst (loadFiles stubExternals newManager [stubFileBad, stubFileMesh, stubFileA] stubOptions))
     = [(''c.bundle'', ''Error: unsupported bundle'')]
   \<and> fst (tryLoadFile stubExternals (snd (tryLoadFile stubExternals newManager stubFileBad stubOptions))
          stubFileMesh stubOptions) = Inr []"
proof -
  from loadFiles_successNum[of stubExternals newManager
          "[stubFileBad, stubFileMesh, stubFileA]" stubOptions]
  have a: "successNum (fst (loadFiles stubExternals newManager
               [stubFileBad, stubFileMesh, stubFileA] stubOptions))
             = length (filter isSuccess (fileOutcomes stubExternals stubOptions newManager
                 [stubFileBad, stubFileMesh, stubFileA]))"
    and b: "infos (fst (loadFiles stubExternals newManager
               [stubFileBad, stubFileMesh, stubFileA] stubOptions))
             = concat (map infosOf (fileOutcomes stubExternals stubOptions newManager
                 [stubFileBad, stubFileMesh, stubFileA]))"
    and c: "errors (fst (loadFiles stubExternals newManager
               [stubFileBad, stubFileMesh, stubFileA] stubOptions))
             = List.map_filter errorOf (fileOutcomes stubExternals stubOptions newManager
                 [stubFileBad, stubFileMesh, stubFileA])"
    by blast+
  show ?thesis unfolding a b c stub_batch by simp
qed

end
